theory Spec2Isabelle
  imports Main
begin

section \<open>Thread synchronisation core of textile-go\<close>

text \<open>
  The theory embeds the thread registry, the chain walk, the republisher, the local
  publish and the decrypting gateway of package \<open>core\<close>, in the revision that carries
  captions, relay framing and per-hash gateway tokens (the unnamed source file that starts
  with \<open>package schema\<close> and continues with \<open>package core\<close>), and the key derivation
  of package \<open>wallet\<close>. The file \<open>src/core/core.go\<close> is an earlier revision of the same
  package: its handler has no author check, no relay framing and no caption, pins
  recursively and handles the messages of a room one after the other; its republisher
  has the same loop.

  Go values are modelled as follows. A byte slice and a string are both \<open>string\<close>. A
  result \<open>(v, err)\<close> is a sum with the error on the left; a bare \<open>error\<close> result is an
  \<open>error option\<close>, \<open>None\<close> being \<open>nil\<close>. A pointer that may be \<open>nil\<close> is an option. A
  run-time panic is the error value \<open>Panic\<close>, so that every way out of a function is a
  value of the model. Log output is not part of the state.
\<close>

type_synonym bytes = string

datatype error =
    ErrNodeNotRunning
  | Error string
  | AlreadyIndexed
  | DuplicateName
  | Panic string

subsection \<open>Strings\<close>

text \<open>\<open>strings.Split\<close> and \<open>strings.Join\<close> for a separator of one character.\<close>

fun Split :: "string \<Rightarrow> char \<Rightarrow> string list" where
  "Split [] sep = [[]]"
| "Split (c # cs) sep =
     (if c = sep then [] # Split cs sep
      else (case Split cs sep of [] \<Rightarrow> [[c]] | w # ws \<Rightarrow> (c # w) # ws))"

fun Join :: "string list \<Rightarrow> string \<Rightarrow> string" where
  "Join [] sep = []"
| "Join [x] sep = x"
| "Join (x # y # ys) sep = x @ sep @ Join (y # ys) sep"

subsection \<open>Data model\<close>

text \<open>
  Modelled from the spec: the declaration of \<open>photos.Metadata\<close> is not among the sources;
  the spec lists a name, a size, a content type, an extension and a creation time.
\<close>

record Metadata =
  Name_md :: string
  Ext :: string
  ContentType :: string
  Size_md :: nat
  Created :: string

text \<open>
  \<open>trepo.PhotoSet\<close> and \<open>trepo.PhotoAlbum\<close>, with the fields of the struct literals in
  \<open>handleHash\<close>, \<open>AddPhoto\<close> and \<open>RegisterAlbum\<close>. A key is its byte encoding.
\<close>

record PhotoSet =
  Cid :: string
  LastCid :: string
  AlbumID :: string
  MetaData :: Metadata
  Caption :: string
  IsLocal :: bool

record PhotoAlbum =
  Id_album :: string
  Key :: bytes
  Mnemonic :: string
  Name :: string

record ThreadUpdate =
  Cid_update :: string
  Thread :: string
  ThreadID :: string

record HashRequest =
  Token :: string
  Protocol :: string
  Host :: string

text \<open>The part of a \<open>floodsub.Message\<close> that the handler reads.\<close>

record Message =
  From :: string
  Data :: bytes

text \<open>\<open>net.MultipartRequest\<close>: only its boundary, the content id of the bundle, is used.\<close>

record MultipartRequest =
  Boundary :: string

text \<open>
  The IPFS node: its identity, the paths pinned so far and the messages handed to
  \<open>Floodsub.Publish\<close> so far, each as (topic, payload), the latest first.
\<close>

record IpfsNode =
  Identity :: string
  Pinning :: "string list"
  Floodsub :: "(string \<times> bytes) list"

text \<open>
  Modelled from the spec: the datastore (\<open>trepo.Datastore\<close>) is an interface whose
  implementation is not among the sources. The album table is a list in insertion order,
  the photo index a list with the most recent record first, and \<open>username\<close> is what
  \<open>Config().GetUsername()\<close> finds.
\<close>

record Datastore =
  albums :: "PhotoAlbum list"
  photos :: "PhotoSet list"
  username :: "string option"

record TextileNode =
  IpfsNode :: "IpfsNode option"
  Datastore :: Datastore
  HashPasses :: "string \<rightharpoonup> string"
  GatewayAddr :: string
  fresh :: bool

text \<open>
  A Go channel as far as a non-blocking send sees it: \<open>capacity\<close> counts the sends that
  can go through (buffer space, or receivers blocked on the channel), \<open>buffer\<close> holds
  what was sent, \<open>closed\<close> says whether \<open>close\<close> was called.
\<close>

record 'a chan =
  buffer :: "'a list"
  capacity :: nat
  closed :: bool

text \<open>
  \<open>select { case c <- v: default: }\<close>: a send on a closed channel panics (\<open>None\<close>); on a
  channel that is not ready the default branch runs and the value is dropped.
\<close>

definition send_nb :: "'a \<Rightarrow> 'a chan \<Rightarrow> 'a chan option" where
  "send_nb v c =
     (if closed c then None
      else if length (buffer c) < capacity c then Some (c\<lparr>buffer := buffer c @ [v]\<rparr>)
      else Some c)"

subsection \<open>External collaborators\<close>

text \<open>
  What the code calls outside this repository, as functions: path parsing
  (\<open>coreapi.ParsePath\<close>, giving the normalised path), \<open>Unixfs().Cat\<close> followed by
  \<open>ioutil.ReadAll\<close>, \<open>Pin().Add\<close> with its recursive flag, \<open>net.Decrypt\<close>,
  \<open>json.Unmarshal\<close> into a \<open>*photos.Metadata\<close> (which is \<open>nil\<close> for the JSON \<open>null\<close>),
  \<open>os.Open\<close> with the file's bytes, \<open>photos.Add\<close>, and the primitives of the key
  derivation: \<open>bip39.NewSeed\<close>, HMAC-SHA256 (key first), Ed25519 key generation from a
  reader holding the given bytes, \<open>PrivKey.Bytes\<close>, \<open>UnmarshalPrivateKey\<close>,
  \<open>peer.IDFromPrivateKey\<close> with \<open>Pretty\<close>, and \<open>PrivKey.GetPublic\<close>.
\<close>

record env =
  parsePath :: "string \<Rightarrow> error + string"
  unixfsCat :: "string \<Rightarrow> error + bytes"
  pinAdd :: "string \<Rightarrow> bool \<Rightarrow> error option"
  decrypt :: "bytes \<Rightarrow> bytes \<Rightarrow> error + bytes"
  unmarshalMetadata :: "bytes \<Rightarrow> error + Metadata option"
  osOpen :: "string \<Rightarrow> error + bytes"
  photosAdd :: "bytes \<Rightarrow> bytes \<Rightarrow> bytes \<Rightarrow> string \<Rightarrow> string \<Rightarrow> string
                 \<Rightarrow> error + (MultipartRequest \<times> Metadata)"
  newSeed :: "string \<Rightarrow> string \<Rightarrow> bytes"
  hmacSha256 :: "bytes \<Rightarrow> bytes \<Rightarrow> bytes"
  generateEd25519 :: "nat \<Rightarrow> bytes \<Rightarrow> error + (bytes \<times> bytes)"
  skBytes :: "bytes \<Rightarrow> error + bytes"
  unmarshalPrivateKey :: "bytes \<Rightarrow> error + bytes"
  idFromPrivateKey :: "bytes \<Rightarrow> error + string"
  getPublic :: "bytes \<Rightarrow> bytes"

subsection \<open>Datastore\<close>

text \<open>
  Modelled from the spec: the album and photo tables of the datastore, whose code is not
  among the sources. \<open>get(name)\<close> and the lookup by id find the album or nothing;
  \<open>createOrJoin\<close> fails with \<open>DuplicateName\<close> if a different identity already owns the
  name and is idempotent if the identity matches; \<open>indexUpdate\<close> fails with
  \<open>AlreadyIndexed\<close> if the content id is present; \<open>latestLocal\<close> and \<open>page\<close> go by
  insertion recency.
\<close>

definition GetAlbum :: "string \<Rightarrow> Datastore \<Rightarrow> PhotoAlbum option" where
  "GetAlbum aid ds = find (\<lambda>a. Id_album a = aid) (albums ds)"

definition GetAlbumByName :: "string \<Rightarrow> Datastore \<Rightarrow> PhotoAlbum option" where
  "GetAlbumByName n ds = find (\<lambda>a. Name a = n) (albums ds)"

text \<open>\<open>GetAlbums("")\<close>: the empty query selects every album.\<close>

definition GetAlbums :: "Datastore \<Rightarrow> PhotoAlbum list" where
  "GetAlbums ds = albums ds"

definition Albums_Put :: "PhotoAlbum \<Rightarrow> Datastore \<Rightarrow> error + Datastore" where
  "Albums_Put a ds =
     (case GetAlbumByName (Name a) ds of
        Some b \<Rightarrow> if Id_album b = Id_album a then Inr ds else Inl DuplicateName
      | None \<Rightarrow> Inr (ds\<lparr>albums := albums ds @ [a]\<rparr>))"

definition GetPhoto :: "string \<Rightarrow> Datastore \<Rightarrow> PhotoSet option" where
  "GetPhoto h ds = find (\<lambda>p. Cid p = h) (photos ds)"

definition Photos_Put :: "PhotoSet \<Rightarrow> Datastore \<Rightarrow> error + Datastore" where
  "Photos_Put p ds =
     (case GetPhoto (Cid p) ds of
        Some q \<Rightarrow> Inl AlreadyIndexed
      | None \<Rightarrow> Inr (ds\<lparr>photos := p # photos ds\<rparr>))"

text \<open>
  The two conditions the callers build as SQL text, \<open>album='<id>'\<close> and
  \<open>album='<id>' and local=1\<close>, by their meaning.
\<close>

datatype query = InAlbum string | InAlbumLocal string

fun matches :: "query \<Rightarrow> PhotoSet \<Rightarrow> bool" where
  "matches (InAlbum aid) p = (AlbumID p = aid)"
| "matches (InAlbumLocal aid) p = (AlbumID p = aid \<and> IsLocal p)"

definition GetPhotos :: "string \<Rightarrow> nat \<Rightarrow> query \<Rightarrow> Datastore \<Rightarrow> PhotoSet list" where
  "GetPhotos offsetId limit q ds =
     take limit (filter (matches q)
       (if offsetId = [] then photos ds
        else drop 1 (dropWhile (\<lambda>p. Cid p \<noteq> offsetId) (photos ds))))"

definition GetUsername :: "Datastore \<Rightarrow> error + string" where
  "GetUsername ds =
     (case username ds of None \<Rightarrow> Inl (Error ''not found'') | Some u \<Rightarrow> Inr u)"

subsection \<open>Reading and decrypting content\<close>

definition Online :: "TextileNode \<Rightarrow> bool" where
  "Online t = (fresh t \<or> IpfsNode t \<noteq> None)"

definition getDataAtPath :: "env \<Rightarrow> string \<Rightarrow> TextileNode \<Rightarrow> error + bytes" where
  "getDataAtPath E path t =
     (case parsePath E path of
        Inl err \<Rightarrow> Inl err
      | Inr ip \<Rightarrow>
          (case IpfsNode t of
             None \<Rightarrow> Inl (Panic ''nil pointer dereference'')
           | Some n \<Rightarrow> unixfsCat E ip))"

definition LoadPhotoAndAlbum :: "string \<Rightarrow> TextileNode \<Rightarrow> error + (PhotoSet \<times> PhotoAlbum)" where
  "LoadPhotoAndAlbum hash t =
     (if \<not> Online t then Inl ErrNodeNotRunning
      else case GetPhoto hash (Datastore t) of
        None \<Rightarrow> Inl (Error (''photo '' @ hash @ '' not found''))
      | Some ph \<Rightarrow>
          (case GetAlbum (AlbumID ph) (Datastore t) of
             None \<Rightarrow> Inl (Error (''could not find album: '' @ AlbumID ph))
           | Some album \<Rightarrow> Inr (ph, album)))"

definition GetFile :: "env \<Rightarrow> string \<Rightarrow> PhotoAlbum option \<Rightarrow> TextileNode \<Rightarrow> error + bytes" where
  "GetFile E path album t =
     (if \<not> Online t then Inl ErrNodeNotRunning
      else case getDataAtPath E path t of
        Inl err \<Rightarrow> Inl err
      | Inr cb \<Rightarrow>
          (case parsePath E path of
             Inl err \<Rightarrow> Inl err
           | Inr ip \<Rightarrow>
               (let tmp = Split ip CHR ''/'' in
                if length tmp < 3 then Inl (Error (''bad path: '' @ path))
                else
                  (let ci = tmp ! 2 in
                   case (case album of
                           None \<Rightarrow> map_sum id snd (LoadPhotoAndAlbum ci t)
                         | Some a \<Rightarrow> Inr a) of
                     Inl err \<Rightarrow> Inl err
                   | Inr a \<Rightarrow> decrypt E (Key a) cb))))"

definition GetMetaData :: "env \<Rightarrow> string \<Rightarrow> PhotoAlbum option \<Rightarrow> TextileNode
    \<Rightarrow> error + Metadata option" where
  "GetMetaData E hash album t =
     (if \<not> Online t then Inl ErrNodeNotRunning
      else case GetFile E (hash @ ''/meta'') album t of
        Inl err \<Rightarrow> Inl err
      | Inr b \<Rightarrow> unmarshalMetadata E b)"

definition GetCaption :: "env \<Rightarrow> string \<Rightarrow> PhotoAlbum option \<Rightarrow> TextileNode \<Rightarrow> error + string" where
  "GetCaption E hash album t =
     (if \<not> Online t then Inl ErrNodeNotRunning
      else GetFile E (hash @ ''/caption'') album t)"

definition GetLastHash :: "env \<Rightarrow> string \<Rightarrow> PhotoAlbum option \<Rightarrow> TextileNode \<Rightarrow> error + string" where
  "GetLastHash E hash album t =
     (if \<not> Online t then Inl ErrNodeNotRunning
      else GetFile E (hash @ ''/last'') album t)"

definition pinPath :: "env \<Rightarrow> string \<Rightarrow> bool \<Rightarrow> TextileNode \<Rightarrow> error option \<times> TextileNode" where
  "pinPath E path recursive t =
     (case parsePath E path of
        Inl err \<Rightarrow> (Some err, t)
      | Inr ip \<Rightarrow>
          (case IpfsNode t of
             None \<Rightarrow> (Some (Panic ''nil pointer dereference''), t)
           | Some n \<Rightarrow>
               (case pinAdd E ip recursive of
                  Some err \<Rightarrow> (Some err, t)
                | None \<Rightarrow> (None, t\<lparr>IpfsNode := Some (n\<lparr>Pinning := ip # Pinning n\<rparr>)\<rparr>))))"

subsection \<open>The chain walk\<close>

text \<open>
  One hop of \<open>handleHash\<close> reads the index first and writes it later, and every
  announcement is handled in a goroutine of its own (\<open>JoinRoom\<close>), so the hop is given in
  its two parts. \<open>handleHash_fetch\<close> is the body from the album lookup to the unpacking
  of the parts: it either returns, or has a record to index. \<open>handleHash_index\<close> is the
  \<open>Put\<close> and the non-blocking send. \<open>handleHash\<close> runs the first, then the second, then
  itself on the back-pointer.
\<close>

datatype hop = Return "error option" | Indexing PhotoSet PhotoAlbum

definition handleHash_fetch :: "env \<Rightarrow> string \<Rightarrow> string \<Rightarrow> TextileNode \<Rightarrow> hop \<times> TextileNode" where
  "handleHash_fetch E hash aid t =
     (case GetAlbum aid (Datastore t) of
        None \<Rightarrow> (Return (Some (Error (''could not find album with id: '' @ aid))), t)
      | Some a \<Rightarrow>
          if hash = [] then (Return None, t)
          else (case GetPhoto hash (Datastore t) of
            Some set0 \<Rightarrow> (Return None, t)
          | None \<Rightarrow>
              (case pinPath E hash False t of
                 (Some err, t1) \<Rightarrow> (Return (Some err), t1)
               | (None, t1) \<Rightarrow>
              (case pinPath E (hash @ ''/thumb'') False t1 of
                 (Some err, t2) \<Rightarrow> (Return (Some err), t2)
               | (None, t2) \<Rightarrow>
              (case pinPath E (hash @ ''/meta'') False t2 of
                 (Some err, t3) \<Rightarrow> (Return (Some err), t3)
               | (None, t3) \<Rightarrow>
              (case pinPath E (hash @ ''/last'') False t3 of
                 (Some err, t4) \<Rightarrow> (Return (Some err), t4)
               | (None, t4) \<Rightarrow>
              (let t5 = snd (pinPath E (hash @ ''/caption'') False t4) in
               case GetMetaData E hash (Some a) t5 of
                 Inl err \<Rightarrow> (Return (Some err), t5)
               | Inr md \<Rightarrow>
              (case GetLastHash E hash (Some a) t5 of
                 Inl err \<Rightarrow> (Return (Some err), t5)
               | Inr lastc \<Rightarrow>
              (let caption = (case GetCaption E hash (Some a) t5 of
                                Inl err \<Rightarrow> [] | Inr c \<Rightarrow> c) in
               case md of
                 None \<Rightarrow> (Return (Some (Panic ''nil pointer dereference'')), t5)
               | Some m \<Rightarrow>
                   (Indexing \<lparr>Cid = hash, LastCid = lastc, AlbumID = aid, MetaData = m,
                              Caption = caption, IsLocal = False\<rparr> a, t5))))))))))"

definition handleHash_index :: "PhotoSet \<Rightarrow> PhotoAlbum \<Rightarrow> ThreadUpdate chan \<Rightarrow> TextileNode
    \<Rightarrow> error option \<times> TextileNode \<times> ThreadUpdate chan" where
  "handleHash_index set0 a datac t =
     (case Photos_Put set0 (Datastore t) of
        Inl err \<Rightarrow> (Some err, t, datac)
      | Inr ds \<Rightarrow>
          (case send_nb \<lparr>Cid_update = Cid set0, Thread = Name a, ThreadID = Id_album a\<rparr> datac of
             None \<Rightarrow> (Some (Panic ''send on closed channel''), t\<lparr>Datastore := ds\<rparr>, datac)
           | Some c \<Rightarrow> (None, t\<lparr>Datastore := ds\<rparr>, c)))"

text \<open>
  The walk recurses on a pointer read from the store, so nothing bounds it from the
  code alone: \<open>None\<close> is a walk that does not return.
\<close>

partial_function (option) handleHash :: "env \<Rightarrow> string \<Rightarrow> string \<Rightarrow> ThreadUpdate chan
    \<Rightarrow> TextileNode \<Rightarrow> (error option \<times> TextileNode \<times> ThreadUpdate chan) option" where
  "handleHash E hash aid datac t =
     (case handleHash_fetch E hash aid t of
        (Return r, t1) \<Rightarrow> Some (r, t1, datac)
      | (Indexing set0 a, t1) \<Rightarrow>
          (case handleHash_index set0 a datac t1 of
             (Some err, t2, c2) \<Rightarrow> Some (Some err, t2, c2)
           | (None, t2, c2) \<Rightarrow> handleHash E (LastCid set0) aid c2 t2))"

declare handleHash.simps [code]

text \<open>
  Vocabulary for the statements about the walk. A path is pinnable when it parses and
  \<open>Pin().Add\<close> accepts it; \<open>pinParts\<close> is the node after the five \<open>pinPath\<close> calls of a
  hop; two nodes give the same access to the store when they agree on what \<open>Online\<close> and
  the nil checks read.
\<close>

definition pinnable :: "env \<Rightarrow> string \<Rightarrow> bool" where
  "pinnable E path =
     (case parsePath E path of Inl err \<Rightarrow> False | Inr ip \<Rightarrow> pinAdd E ip False = None)"

definition pinParts :: "env \<Rightarrow> string \<Rightarrow> TextileNode \<Rightarrow> TextileNode" where
  "pinParts E hash t =
     snd (pinPath E (hash @ ''/caption'') False
       (snd (pinPath E (hash @ ''/last'') False
         (snd (pinPath E (hash @ ''/meta'') False
           (snd (pinPath E (hash @ ''/thumb'') False
             (snd (pinPath E hash False t)))))))))"

definition same_access :: "TextileNode \<Rightarrow> TextileNode \<Rightarrow> bool" where
  "same_access t t' = (fresh t' = fresh t \<and> (IpfsNode t' = None) = (IpfsNode t = None))"

text \<open>
  What the object store holds, said without the node and without the readers of the
  code. The plaintext of a part is there when its path parses to a normalised path with
  a root, the bytes under that path can be read, and they decrypt under the key.
  The update stored under \<open>h\<close> for album \<open>a\<close> is there when \<open>h\<close> is not the empty pointer,
  its directory node and its thumbnail, metadata and back-pointer parts are pinnable, the
  plaintext of its metadata part decodes to a descriptor, and the plaintext of its
  back-pointer part is there; its caption is the plaintext of the caption part, or empty
  if that is not there. A list of content ids is a chain when an update is stored under
  each, the back-pointer of each is the next one, and the back-pointer of the last one
  is the empty genesis pointer.
\<close>

definition plaintext :: "env \<Rightarrow> bytes \<Rightarrow> string \<Rightarrow> bytes option" where
  "plaintext E k path =
     (case parsePath E path of
        Inl err \<Rightarrow> None
      | Inr ip \<Rightarrow>
          if length (Split ip CHR ''/'') < 3 then None
          else (case unixfsCat E ip of
                  Inl err \<Rightarrow> None
                | Inr cb \<Rightarrow>
                    (case decrypt E k cb of Inl err \<Rightarrow> None | Inr b \<Rightarrow> Some b)))"

definition remote_update :: "env \<Rightarrow> PhotoAlbum \<Rightarrow> string \<Rightarrow> string \<Rightarrow> PhotoSet option" where
  "remote_update E a aid h =
     (if h \<noteq> [] \<and> pinnable E h \<and> pinnable E (h @ ''/thumb'') \<and>
         pinnable E (h @ ''/meta'') \<and> pinnable E (h @ ''/last'')
      then (case plaintext E (Key a) (h @ ''/meta'') of
              None \<Rightarrow> None
            | Some mb \<Rightarrow>
                (case unmarshalMetadata E mb of
                   Inl err \<Rightarrow> None
                 | Inr None \<Rightarrow> None
                 | Inr (Some m) \<Rightarrow>
                     (case plaintext E (Key a) (h @ ''/last'') of
                        None \<Rightarrow> None
                      | Some l \<Rightarrow>
                          Some \<lparr>Cid = h, LastCid = l, AlbumID = aid, MetaData = m,
                                Caption = (case plaintext E (Key a) (h @ ''/caption'') of
                                             None \<Rightarrow> [] | Some c \<Rightarrow> c),
                                IsLocal = False\<rparr>)))
      else None)"

fun chain :: "env \<Rightarrow> PhotoAlbum \<Rightarrow> string \<Rightarrow> string list \<Rightarrow> bool" where
  "chain E a aid [] = False"
| "chain E a aid [h] =
     (case remote_update E a aid h of None \<Rightarrow> False | Some p \<Rightarrow> LastCid p = [])"
| "chain E a aid (h # h' # hs) =
     (case remote_update E a aid h of
        None \<Rightarrow> False
      | Some p \<Rightarrow> LastCid p = h' \<and> chain E a aid (h' # hs))"

text \<open>
  Two walks for the same hash, each in its own goroutine as \<open>JoinRoom\<close> starts them, in
  the schedule where both read the index before either writes it: walk A runs its first
  part, walk B runs its first part, A indexes, B indexes. The result is what the second
  part gave to A and to B (\<open>None\<close>: the walk goes on to the back-pointer, \<open>Some err\<close>: it
  returns \<open>err\<close>) with the node and the channel after both. The schedule does not arise
  (\<open>None\<close>) when a walk returns from its first part.
\<close>

definition handleHash_interleaved :: "env \<Rightarrow> string \<Rightarrow> string \<Rightarrow> ThreadUpdate chan \<Rightarrow> TextileNode
    \<Rightarrow> ((error option \<times> error option) \<times> TextileNode \<times> ThreadUpdate chan) option" where
  "handleHash_interleaved E hash aid datac t =
     (case handleHash_fetch E hash aid t of
        (Return rA, t1) \<Rightarrow> None
      | (Indexing pA aA, t1) \<Rightarrow>
          (case handleHash_fetch E hash aid t1 of
             (Return rB, t2) \<Rightarrow> None
           | (Indexing pB aB, t2) \<Rightarrow>
               (case handleHash_index pA aA datac t2 of
                  (rA, t3, c3) \<Rightarrow>
                    (case handleHash_index pB aB c3 t3 of
                       (rB, t4, c4) \<Rightarrow> Some ((rA, rB), t4, c4)))))"

text \<open>
  The index only grows: the albums stay, no content id is lost, and an index without
  duplicate content ids stays without them.
\<close>

definition grows :: "Datastore \<Rightarrow> Datastore \<Rightarrow> bool" where
  "grows ds ds' =
     (albums ds' = albums ds \<and> Cid ` set (photos ds) \<subseteq> Cid ` set (photos ds') \<and>
      (distinct (map Cid (photos ds)) \<longrightarrow> distinct (map Cid (photos ds'))))"

text \<open>
  The unpacking of the message data in \<open>handleRoomUpdate\<close>: the hash to walk from and the
  origin label that goes to the log.
\<close>

definition unpackUpdate :: "string \<Rightarrow> bytes \<Rightarrow> string \<times> string" where
  "unpackUpdate from data =
     (let tmp = Split data CHR '':'' in
      if length tmp > 1 \<and> tmp ! 0 = ''relay'' then (tmp ! 1, ''relay:'' @ from)
      else (tmp ! 0, from))"

definition handleRoomUpdate :: "env \<Rightarrow> Message \<Rightarrow> string \<Rightarrow> ThreadUpdate chan \<Rightarrow> TextileNode
    \<Rightarrow> (error option \<times> TextileNode \<times> ThreadUpdate chan) option" where
  "handleRoomUpdate E msg aid datac t =
     (case IpfsNode t of
        None \<Rightarrow> Some (Some (Panic ''nil pointer dereference''), t, datac)
      | Some n \<Rightarrow>
          if From msg = Identity n then Some (None, t, datac)
          else handleHash E (fst (unpackUpdate (From msg) (Data msg))) aid datac t)"

subsection \<open>Publishing\<close>

text \<open>
  \<open>IpfsNode.Floodsub.Publish\<close>: the call is recorded with its topic and payload. Its own
  error result is only logged by the callers. The callers publish from a goroutine they
  start and do not wait for; the model records the call where the goroutine is started,
  and gives a panic of the goroutine as the result of the caller.
\<close>

definition Publish :: "string \<Rightarrow> bytes \<Rightarrow> TextileNode \<Rightarrow> error option \<times> TextileNode" where
  "Publish topic data t =
     (case IpfsNode t of
        None \<Rightarrow> (Some (Panic ''nil pointer dereference''), t)
      | Some n \<Rightarrow> (None, t\<lparr>IpfsNode := Some (n\<lparr>Floodsub := (topic, data) # Floodsub n\<rparr>)\<rparr>))"

text \<open>
  The loop of \<open>republishLatestUpdates\<close> over the albums: an album without a local update
  makes the function return.
\<close>

fun republishLatestUpdates_loop :: "PhotoAlbum list \<Rightarrow> TextileNode \<Rightarrow> error option \<times> TextileNode" where
  "republishLatestUpdates_loop [] t = (None, t)"
| "republishLatestUpdates_loop (a # as) t =
     (case GetPhotos [] 1 (InAlbumLocal (Id_album a)) (Datastore t) of
        [] \<Rightarrow> (None, t)
      | r # rs \<Rightarrow>
          (case Publish (Id_album a) (Cid r) t of
             (Some err, t1) \<Rightarrow> (Some err, t1)
           | (None, t1) \<Rightarrow> republishLatestUpdates_loop as t1))"

definition republishLatestUpdates :: "TextileNode \<Rightarrow> error option \<times> TextileNode" where
  "republishLatestUpdates t = republishLatestUpdates_loop (GetAlbums (Datastore t)) t"

definition AddPhoto :: "env \<Rightarrow> string \<Rightarrow> string \<Rightarrow> string \<Rightarrow> string \<Rightarrow> TextileNode
    \<Rightarrow> (error + MultipartRequest) \<times> TextileNode" where
  "AddPhoto E path thumb album caption t =
     (if \<not> Online t then (Inl ErrNodeNotRunning, t)
      else case osOpen E path of
        Inl err \<Rightarrow> (Inl err, t)
      | Inr p \<Rightarrow>
     (case osOpen E thumb of
        Inl err \<Rightarrow> (Inl err, t)
      | Inr th \<Rightarrow>
     (case GetAlbumByName album (Datastore t) of
        None \<Rightarrow> (Inl (Error (''could not find album: '' @ album)), t)
      | Some a \<Rightarrow>
     (let lc = (case GetPhotos [] 1 (InAlbumLocal (Id_album a)) (Datastore t) of
                  [] \<Rightarrow> [] | r # rs \<Rightarrow> Cid r);
          un = (case GetUsername (Datastore t) of Inl err \<Rightarrow> [] | Inr u \<Rightarrow> u)
      in case photosAdd E (getPublic E (Key a)) p th lc un caption of
        Inl err \<Rightarrow> (Inl err, t)
      | Inr (mr, md) \<Rightarrow>
     (case Photos_Put \<lparr>Cid = Boundary mr, LastCid = lc, AlbumID = Id_album a, MetaData = md,
                        Caption = caption, IsLocal = True\<rparr> (Datastore t) of
        Inl err \<Rightarrow> (Inl err, t)
      | Inr ds \<Rightarrow>
     (case Publish (Id_album a) (Boundary mr) (t\<lparr>Datastore := ds\<rparr>) of
        (Some err, t1) \<Rightarrow> (Inl err, t1)
      | (None, t1) \<Rightarrow> (Inr mr, t1)))))))"

subsection \<open>Gateway tokens\<close>

text \<open>\<open>GetHashRequest\<close>; \<open>token\<close> is the value \<open>ksuid.New().String()\<close> gave.\<close>

definition GetHashRequest :: "string \<Rightarrow> string \<Rightarrow> TextileNode \<Rightarrow> HashRequest \<times> TextileNode" where
  "GetHashRequest hash token t =
     (\<lparr>Token = token, Protocol = ''http'', Host = GatewayAddr t\<rparr>,
      t\<lparr>HashPasses := (HashPasses t)(hash \<mapsto> token)\<rparr>)"

text \<open>
  A request as the handler reads it (\<open>r.BasicAuth()\<close>, \<open>r.URL.Path\<close>) and the response it
  writes. \<open>Challenge\<close> is the \<open>WWW-Authenticate\<close> header with the value
  \<open>Basic realm="Restricted"\<close>. A handler that returns without writing answers 200 with
  an empty body.
\<close>

record Request =
  BasicAuth :: "(string \<times> string) option"
  URLPath :: string

record Response =
  Status :: nat
  Challenge :: bool
  Body :: bytes

text \<open>
  The handler that \<open>registerGatewayHandler\<close> installs. A key that is missing from the Go
  map \<open>HashPasses\<close> reads as the empty string. A panic inside \<open>GetFile\<close> is not an error
  result: it leaves the handler, the server closes the connection and no response is
  written, which is \<open>None\<close>. The node is returned as the handler leaves it.
\<close>

definition gatewayHandler :: "env \<Rightarrow> Request \<Rightarrow> TextileNode \<Rightarrow> Response option \<times> TextileNode" where
  "gatewayHandler E r t =
     (case BasicAuth r of
        None \<Rightarrow> (Some \<lparr>Status = 401, Challenge = True, Body = []\<rparr>, t)
      | Some (user, password) \<Rightarrow>
          (let tmp = Split (URLPath r) CHR ''/'' in
           if length tmp < 3 then (Some \<lparr>Status = 200, Challenge = False, Body = []\<rparr>, t)
           else
             (let ci = Join (drop 2 tmp) ''/'' in
              if password \<noteq> (case HashPasses t ci of None \<Rightarrow> [] | Some pw \<Rightarrow> pw)
              then (Some \<lparr>Status = 401, Challenge = False, Body = []\<rparr>, t)
              else (case GetFile E (URLPath r) None t of
                      Inl (Panic s) \<Rightarrow> (None, t)
                    | Inl err \<Rightarrow> (Some \<lparr>Status = 400, Challenge = False, Body = []\<rparr>, t)
                    | Inr b \<Rightarrow> (Some \<lparr>Status = 200, Challenge = False, Body = b\<rparr>, t)))))"

subsection \<open>Thread identity\<close>

text \<open>
  \<open>identityKeyFromSeed\<close> of package \<open>wallet\<close>: the HMAC of the seed under the fixed key is
  the reader the key generation draws from; the bit size 2048 has no meaning for Ed25519.
  \<open>RegisterAlbum\<close> passes \<open>trepo.NBitsForKeypair\<close> as a second argument, to a revision of
  the helper that is not among the sources.
\<close>

definition identityKeyFromSeed :: "env \<Rightarrow> bytes \<Rightarrow> error + bytes" where
  "identityKeyFromSeed E seed =
     (case generateEd25519 E 2048 (hmacSha256 E ''scythian horde'' seed) of
        Inl err \<Rightarrow> Inl err
      | Inr (sk, pk) \<Rightarrow> skBytes E sk)"

definition RegisterAlbum :: "env \<Rightarrow> string \<Rightarrow> string \<Rightarrow> TextileNode \<Rightarrow> error option \<times> TextileNode" where
  "RegisterAlbum E mnemonic name t =
     (let seed = newSeed E mnemonic [] in
      case identityKeyFromSeed E seed of
        Inl err \<Rightarrow> (Some err, t)
      | Inr kb \<Rightarrow>
     (case unmarshalPrivateKey E kb of
        Inl err \<Rightarrow> (Some err, t)
      | Inr sk \<Rightarrow>
     (case idFromPrivateKey E sk of
        Inl err \<Rightarrow> (Some err, t)
      | Inr pid \<Rightarrow>
     (case Albums_Put \<lparr>Id_album = pid, Key = sk, Mnemonic = mnemonic, Name = name\<rparr>
             (Datastore t) of
        Inl err \<Rightarrow> (Some err, t)
      | Inr ds \<Rightarrow> (None, t\<lparr>Datastore := ds\<rparr>)))))"

subsection \<open>A small object store and node for evaluation\<close>

text \<open>
  A store with two linked updates of album \<open>A\<close>: \<open>h1\<close> points back to \<open>h2\<close>, \<open>h2\<close> is the
  first update of the thread. Neither has a caption part. Under \<open>h3\<close> there is a
  metadata part and nothing else, under \<open>h4\<close> nothing. Paths are normalised by
  prefixing \<open>/ipfs/\<close> where it is missing, the cipher of the store is the identity under key \<open>k\<close>, and
  the only metadata document is \<open>m\<close>.
\<close>

definition demo_md :: Metadata where
  "demo_md = \<lparr>Name_md = ''p'', Ext = ''.jpg'', ContentType = ''image/jpeg'', Size_md = 1,
               Created = ''2018''\<rparr>"

definition demo_store :: "(string \<times> bytes) list" where
  "demo_store =
     [(''/ipfs/h1/meta'', ''m''), (''/ipfs/h1/last'', ''h2''),
      (''/ipfs/h2/meta'', ''m''), (''/ipfs/h2/last'', []),
      (''/ipfs/h3/meta'', ''m'')]"

definition demo_env :: env where
  "demo_env =
     \<lparr>parsePath = (\<lambda>p. if p = [] then Inl (Error ''invalid path'')
                        else if take 6 p = ''/ipfs/'' then Inr p else Inr (''/ipfs/'' @ p)),
      unixfsCat = (\<lambda>ip. case map_of demo_store ip of
                            None \<Rightarrow> Inl (Error ''no link'') | Some b \<Rightarrow> Inr b),
      pinAdd = (\<lambda>ip r. None),
      decrypt = (\<lambda>k cb. if k = ''k'' then Inr cb else Inl (Error ''decryption failed'')),
      unmarshalMetadata = (\<lambda>b. if b = ''m'' then Inr (Some demo_md)
                                 else Inl (Error ''invalid json'')),
      osOpen = (\<lambda>p. if p = [] then Inl (Error ''no such file'') else Inr p),
      photosAdd = (\<lambda>pk p th lc un cap.
                     if p = ''big'' then Inl (Error ''pin failed'')
                     else Inr (\<lparr>Boundary = ''h0''\<rparr>, demo_md)),
      newSeed = (\<lambda>m pw. m @ pw),
      hmacSha256 = (\<lambda>k d. k @ d),
      generateEd25519 = (\<lambda>bits r. Inr (r, rev r)),
      skBytes = (\<lambda>sk. Inr sk),
      unmarshalPrivateKey = (\<lambda>kb. Inr kb),
      idFromPrivateKey = (\<lambda>sk. Inr (''Qm'' @ sk)),
      getPublic = (\<lambda>sk. rev sk)\<rparr>"

definition demo_album :: PhotoAlbum where
  "demo_album = \<lparr>Id_album = ''A'', Key = ''k'', Mnemonic = ''w'', Name = ''cats''\<rparr>"

definition demo_node :: TextileNode where
  "demo_node =
     \<lparr>IpfsNode = Some \<lparr>Identity = ''me'', Pinning = [], Floodsub = []\<rparr>,
      Datastore = \<lparr>albums = [demo_album], photos = [], username = None\<rparr>,
      HashPasses = Map.empty,
      GatewayAddr = ''127.0.0.1:9192'',
      fresh = False\<rparr>"

definition demo_chan :: "ThreadUpdate chan" where
  "demo_chan = \<lparr>buffer = [], capacity = 8, closed = False\<rparr>"

text \<open>
  A node with two albums, of which only the second has a local update, and a node that
  has indexed \<open>h1\<close> and serves it through the gateway.
\<close>

definition demo_album_B :: PhotoAlbum where
  "demo_album_B = \<lparr>Id_album = ''B'', Key = ''k'', Mnemonic = ''v'', Name = ''dogs''\<rparr>"

definition demo_local :: PhotoSet where
  "demo_local = \<lparr>Cid = ''hb'', LastCid = [], AlbumID = ''B'', MetaData = demo_md,
                  Caption = [], IsLocal = True\<rparr>"

definition republish_node :: TextileNode where
  "republish_node =
     demo_node\<lparr>Datastore := \<lparr>albums = [demo_album, demo_album_B], photos = [demo_local],
                               username = None\<rparr>\<rparr>"

definition demo_remote :: PhotoSet where
  "demo_remote = \<lparr>Cid = ''h1'', LastCid = ''h2'', AlbumID = ''A'', MetaData = demo_md,
                   Caption = [], IsLocal = False\<rparr>"

definition gateway_node :: TextileNode where
  "gateway_node =
     demo_node\<lparr>Datastore := \<lparr>albums = [demo_album], photos = [demo_remote],
                               username = None\<rparr>\<rparr>"

definition gateway_request :: Request where
  "gateway_request = \<lparr>BasicAuth = Some (''TextileNode'', ''tok''), URLPath = ''/ipfs/h1/meta''\<rparr>"

text \<open>
  The node a walk from \<open>h1\<close> leaves behind when the metadata of \<open>h2\<close> cannot be fetched:
  \<open>h1\<close> is indexed, \<open>h2\<close> is not. \<open>flaky_env\<close> is the small store at such a moment.
\<close>

definition gap_node :: TextileNode where
  "gap_node =
     demo_node\<lparr>Datastore := \<lparr>albums = [demo_album], photos = [demo_remote],
                               username = None\<rparr>\<rparr>"

definition flaky_env :: env where
  "flaky_env =
     demo_env\<lparr>unixfsCat := (\<lambda>ip. if ip = ''/ipfs/h2/meta'' then Inl (Error ''timeout'')
                                  else unixfsCat demo_env ip)\<rparr>"

section \<open>Properties\<close>

subsection \<open>The registry lookup comes first\<close>

text \<open>
  C10. For every hash, the empty genesis pointer included, \<open>handleHash\<close> returns the
  error \<open>could not find album with id: ...\<close> and changes nothing when the thread id is
  not in the album table; the empty content id is a success, without any effect, for a
  thread that is registered.
\<close>

theorem unknown_thread_is_error:
  "(GetAlbum aid (Datastore t) = None \<longrightarrow>
      handleHash E hash aid datac t =
        Some (Some (Error (''could not find album with id: '' @ aid)), t, datac)) \<and>
   (GetAlbum aid (Datastore t) \<noteq> None \<longrightarrow>
      handleHash E [] aid datac t = Some (None, t, datac))"
  by (auto simp: handleHash.simps handleHash_fetch_def)

theorem unknown_thread_is_error_witness:
  "handleHash demo_env [] ''B'' demo_chan demo_node =
     Some (Some (Error ''could not find album with id: B''), demo_node, demo_chan) \<and>
   handleHash demo_env [] ''A'' demo_chan demo_node = Some (None, demo_node, demo_chan)"
  using unknown_thread_is_error [of "''B''" demo_node demo_env "[]" demo_chan]
    unknown_thread_is_error [of "''A''" demo_node demo_env "[]" demo_chan]
  by (simp add: GetAlbum_def demo_node_def demo_album_def)

subsection \<open>The republisher\<close>

text \<open>
  C4. Each run of the republisher is to publish, for every album with a local update, the
  content id of its most recent local update. The loop leaves the function at the first
  album without a local update instead of going on to the next one. On a node whose
  albums are \<open>A\<close>, without a local update, and then \<open>B\<close>, whose latest local update is
  \<open>hb\<close>, a run publishes nothing.
\<close>

theorem republish_skips_later_albums:
  "GetAlbums (Datastore republish_node) = [demo_album, demo_album_B] \<and>
   map Cid (GetPhotos [] 1 (InAlbumLocal (Id_album demo_album_B)) (Datastore republish_node))
     = [''hb''] \<and>
   republishLatestUpdates republish_node = (None, republish_node)"
  by (simp add: republishLatestUpdates_def GetAlbums_def GetPhotos_def republish_node_def
      demo_node_def demo_album_def demo_album_B_def demo_local_def)

text \<open>With the same two albums in the other order the head of \<open>B\<close> is published.\<close>

lemma republish_other_order:
  "map_option Floodsub (IpfsNode (snd (republishLatestUpdates
     (republish_node\<lparr>Datastore := (Datastore republish_node)
        \<lparr>albums := [demo_album_B, demo_album]\<rparr>\<rparr>)))) = Some [(''B'', ''hb'')]"
  by (simp add: republishLatestUpdates_def GetAlbums_def GetPhotos_def republish_node_def
      demo_node_def demo_album_def demo_album_B_def demo_local_def Publish_def)

subsection \<open>Gateway tokens\<close>

text \<open>The gateway handler leaves the node, and with it the token table, as it is.\<close>

lemma gatewayHandler_node: "snd (gatewayHandler E r t) = t"
  by (simp add: gatewayHandler_def Let_def
      split: option.splits prod.splits sum.splits error.splits)

text \<open>
  C5. A token is to be consumed by the request it serves. The handler compares the
  password with the entry of \<open>HashPasses\<close> and never writes the table: after a token has
  been issued for \<open>h1/meta\<close>, the request that presents it is served with the decrypted
  bytes, and so is the same request presented a second time.
\<close>

theorem gateway_token_reused:
  "(let (hr, t1) = GetHashRequest ''h1/meta'' ''tok'' gateway_node;
        (r1, t2) = gatewayHandler demo_env gateway_request t1;
        (r2, t3) = gatewayHandler demo_env gateway_request t2
    in (Token hr, map_option Status r1, map_option Body r1, map_option Status r2,
        map_option Body r2)) = (''tok'', Some 200, Some ''m'', Some 200, Some ''m'')"
  by (simp add: GetHashRequest_def gatewayHandler_def gateway_request_def gateway_node_def
      demo_node_def demo_env_def demo_store_def demo_album_def demo_remote_def
      GetFile_def getDataAtPath_def Online_def LoadPhotoAndAlbum_def GetPhoto_def GetAlbum_def
      Let_def)

subsection \<open>The update handler\<close>

text \<open>
  C6. An announcement whose author is the local identity is discarded: the handler
  returns \<open>nil\<close>, and the node (pins, index) and the listener channel are as before.
\<close>

theorem self_suppression:
  "IpfsNode t = Some n \<Longrightarrow> From msg = Identity n \<Longrightarrow>
   handleRoomUpdate E msg aid datac t = Some (None, t, datac)"
  by (simp add: handleRoomUpdate_def)

theorem self_suppression_witness:
  "handleRoomUpdate demo_env \<lparr>From = ''me'', Data = ''h1''\<rparr> ''A'' demo_chan demo_node =
     Some (None, demo_node, demo_chan)"
  using self_suppression [of demo_node "\<lparr>Identity = ''me'', Pinning = [], Floodsub = []\<rparr>"
      "\<lparr>From = ''me'', Data = ''h1''\<rparr>" demo_env "''A''" demo_chan]
  by (simp add: demo_node_def)

text \<open>\<open>strings.Split\<close> never gives an empty slice, and its first element is a prefix.\<close>

lemma Split_nonempty: "Split s c \<noteq> []"
  by (induction s) (auto split: list.splits)

lemma Split_no_sep: "c \<notin> set h \<Longrightarrow> Split h c = [h]"
  by (induction h) auto

lemma Split_head_prefix:
  "Split h c = w # x # xs \<Longrightarrow> take (Suc (length w)) h = w @ [c]"
proof (induction h arbitrary: w x xs)
  case Nil
  then show ?case by simp
next
  case (Cons a h)
  show ?case
  proof (cases "a = c")
    case True
    with Cons.prems show ?thesis by simp
  next
    case False
    with Cons.prems obtain w' where w: "w = a # w'" and s: "Split h c = w' # x # xs"
      by (auto split: list.splits)
    from Cons.IH [OF s] w show ?thesis by simp
  qed
qed

lemma Split_relay: "Split (''relay:'' @ h) CHR '':'' = ''relay'' # Split h CHR '':''"
  by (cases "Split h CHR '':''") (simp_all add: Split_nonempty)

lemma unpackUpdate_relay:
  "unpackUpdate f (''relay:'' @ h) = (hd (Split h CHR '':''), ''relay:'' @ f)"
  using Split_nonempty [of h "CHR '':''"]
  by (cases "Split h CHR '':''") (simp_all add: unpackUpdate_def Split_relay Let_def)

lemma unpackUpdate_bare:
  assumes "take 6 h \<noteq> ''relay:''"
  shows "unpackUpdate f h = (hd (Split h CHR '':''), f)"
proof (cases "Split h CHR '':''")
  case Nil
  then show ?thesis using Split_nonempty by blast
next
  case (Cons w ws)
  show ?thesis
  proof (cases ws)
    case Nil
    with Cons show ?thesis by (simp add: unpackUpdate_def)
  next
    case (Cons x xs)
    with \<open>Split h CHR '':'' = w # ws\<close> have s: "Split h CHR '':'' = w # x # xs" by simp
    have "w \<noteq> ''relay''"
    proof
      assume "w = ''relay''"
      then have "Suc (length w) = 6" by simp
      with Split_head_prefix [OF s] have "take 6 h = w @ '':''" by simp
      with \<open>w = ''relay''\<close> assms show False by simp
    qed
    with s show ?thesis by (simp add: unpackUpdate_def)
  qed
qed

text \<open>
  A content id has no colon, and is then the hash the walk starts from: an announcement
  of a content id by another peer is handled by \<open>handleHash\<close> on that id.
\<close>

lemma unpackUpdate_cid: "CHR '':'' \<notin> set h \<Longrightarrow> unpackUpdate f h = (h, f)"
  by (simp add: unpackUpdate_def Split_no_sep)

lemma handleRoomUpdate_cid:
  "IpfsNode t = Some n \<Longrightarrow> From msg \<noteq> Identity n \<Longrightarrow> CHR '':'' \<notin> set (Data msg) \<Longrightarrow>
   handleRoomUpdate E msg aid datac t = handleHash E (Data msg) aid datac t"
  by (simp add: handleRoomUpdate_def unpackUpdate_cid)

text \<open>
  C7. For a content id \<open>h\<close> (more generally, for any \<open>h\<close> that does not itself begin with
  \<open>relay:\<close>) the announcement \<open>relay:h\<close> is handled as the announcement \<open>h\<close> is: the same
  result, the same node and the same listener channel afterwards. The origin label for
  the log is the author with \<open>relay:\<close> in front in the first case and the author in the
  second.
\<close>

theorem relay_framing_equivalent:
  assumes "take 6 h \<noteq> ''relay:''"
  shows "handleRoomUpdate E \<lparr>From = f, Data = ''relay:'' @ h\<rparr> aid datac t =
           handleRoomUpdate E \<lparr>From = f, Data = h\<rparr> aid datac t \<and>
         snd (unpackUpdate f (''relay:'' @ h)) = ''relay:'' @ f \<and>
         snd (unpackUpdate f h) = f"
proof -
  have r: "unpackUpdate f (''relay:'' @ h) = (hd (Split h CHR '':''), ''relay:'' @ f)"
    by (rule unpackUpdate_relay)
  have b: "unpackUpdate f h = (hd (Split h CHR '':''), f)"
    using assms by (rule unpackUpdate_bare)
  have "handleRoomUpdate E \<lparr>From = f, Data = ''relay:'' @ h\<rparr> aid datac t =
          handleRoomUpdate E \<lparr>From = f, Data = h\<rparr> aid datac t"
    unfolding handleRoomUpdate_def Message.select_convs r b fst_conv by (rule refl)
  with r b show ?thesis by simp
qed

theorem relay_framing_equivalent_witness:
  "handleRoomUpdate demo_env \<lparr>From = ''you'', Data = ''relay:h1''\<rparr> ''A'' demo_chan demo_node =
     handleRoomUpdate demo_env \<lparr>From = ''you'', Data = ''h1''\<rparr> ''A'' demo_chan demo_node \<and>
   snd (unpackUpdate ''you'' ''relay:h1'') = ''relay:you'' \<and>
   snd (unpackUpdate ''you'' ''h1'') = ''you''"
  using relay_framing_equivalent [of "''h1''" demo_env "''you''" "''A''" demo_chan demo_node]
  by simp

subsection \<open>Local publish\<close>

text \<open>
  C9. When \<open>photos.Add\<close>, the step that encodes, stores and pins the bundle, fails in an
  \<open>AddPhoto\<close> call that got as far as calling it, the call returns that error and the node,
  the photo index in particular, is unchanged.
\<close>

theorem AddPhoto_atomic:
  assumes "Online t"
    and "osOpen E path = Inr p"
    and "osOpen E thumb = Inr th"
    and "GetAlbumByName album (Datastore t) = Some a"
    and "photosAdd E (getPublic E (Key a)) p th
           (case GetPhotos [] 1 (InAlbumLocal (Id_album a)) (Datastore t) of
              [] \<Rightarrow> [] | r # rs \<Rightarrow> Cid r)
           (case GetUsername (Datastore t) of Inl err \<Rightarrow> [] | Inr u \<Rightarrow> u)
           caption = Inl e"
  shows "AddPhoto E path thumb album caption t = (Inl e, t)"
  using assms by (simp add: AddPhoto_def Let_def)

theorem AddPhoto_atomic_witness:
  "AddPhoto demo_env ''big'' ''small'' ''cats'' ''hello'' demo_node =
     (Inl (Error ''pin failed''), demo_node)"
  using AddPhoto_atomic [of demo_node demo_env "''big''" "''big''" "''small''" "''small''"
      "''cats''" demo_album "''hello''" "Error ''pin failed''"]
  by (simp add: Online_def demo_node_def demo_env_def GetAlbumByName_def demo_album_def)

text \<open>
  The other direction: whenever a call of \<open>AddPhoto\<close> changes the photo index, \<open>photos.Add\<close>
  has returned the bundle, and the new head of the index is the record of that bundle.
\<close>

lemma AddPhoto_indexes_after_Add:
  assumes "AddPhoto E path thumb album caption t = (res, t')"
    and "photos (Datastore t') \<noteq> photos (Datastore t)"
  shows "\<exists>p th a mr md.
           osOpen E path = Inr p \<and> osOpen E thumb = Inr th \<and>
           GetAlbumByName album (Datastore t) = Some a \<and>
           photosAdd E (getPublic E (Key a)) p th
             (case GetPhotos [] 1 (InAlbumLocal (Id_album a)) (Datastore t) of
                [] \<Rightarrow> [] | r # rs \<Rightarrow> Cid r)
             (case GetUsername (Datastore t) of Inl err \<Rightarrow> [] | Inr u \<Rightarrow> u)
             caption = Inr (mr, md) \<and>
           hd (photos (Datastore t')) =
             \<lparr>Cid = Boundary mr,
              LastCid = (case GetPhotos [] 1 (InAlbumLocal (Id_album a)) (Datastore t) of
                           [] \<Rightarrow> [] | r # rs \<Rightarrow> Cid r),
              AlbumID = Id_album a, MetaData = md, Caption = caption, IsLocal = True\<rparr>"
  using assms
  by (auto simp: AddPhoto_def Let_def Photos_Put_def Publish_def
      split: if_splits sum.splits option.splits prod.splits)

subsection \<open>Thread identity\<close>

lemma find_snoc:
  "find P (xs @ [a]) =
     (case find P xs of Some x \<Rightarrow> Some x | None \<Rightarrow> if P a then Some a else None)"
  by (induction xs) auto

lemma RegisterAlbum_fresh_name:
  assumes "GetAlbumByName n (Datastore t) = None"
    and "RegisterAlbum E mnemonic n t = (None, t')"
  shows "\<exists>kb sk pid.
           identityKeyFromSeed E (newSeed E mnemonic []) = Inr kb \<and>
           unmarshalPrivateKey E kb = Inr sk \<and>
           idFromPrivateKey E sk = Inr pid \<and>
           GetAlbumByName n (Datastore t') =
             Some \<lparr>Id_album = pid, Key = sk, Mnemonic = mnemonic, Name = n\<rparr>"
  using assms
  by (auto simp: RegisterAlbum_def Let_def Albums_Put_def GetAlbumByName_def find_snoc
      split: sum.splits option.splits if_splits)

text \<open>
  C3. The derivation reads nothing but the phrase. Two registrations of one phrase, on
  any two nodes and under any two names that are still free there, store albums with the
  same private key, decoded from the same key bytes, and the same thread id.
\<close>

theorem identity_deterministic:
  assumes "GetAlbumByName n1 (Datastore t1) = None"
    and "GetAlbumByName n2 (Datastore t2) = None"
    and "RegisterAlbum E mnemonic n1 t1 = (None, t1')"
    and "RegisterAlbum E mnemonic n2 t2 = (None, t2')"
  shows "\<exists>a1 a2 kb. GetAlbumByName n1 (Datastore t1') = Some a1 \<and>
                 GetAlbumByName n2 (Datastore t2') = Some a2 \<and>
                 identityKeyFromSeed E (newSeed E mnemonic []) = Inr kb \<and>
                 unmarshalPrivateKey E kb = Inr (Key a1) \<and>
                 Key a1 = Key a2 \<and> Id_album a1 = Id_album a2"
proof -
  from RegisterAlbum_fresh_name [OF assms(1,3)] obtain kb sk pid where
    1: "identityKeyFromSeed E (newSeed E mnemonic []) = Inr kb"
       "unmarshalPrivateKey E kb = Inr sk" "idFromPrivateKey E sk = Inr pid"
       "GetAlbumByName n1 (Datastore t1') =
          Some \<lparr>Id_album = pid, Key = sk, Mnemonic = mnemonic, Name = n1\<rparr>"
    by blast
  from RegisterAlbum_fresh_name [OF assms(2,4)] obtain kb' sk' pid' where
    2: "identityKeyFromSeed E (newSeed E mnemonic []) = Inr kb'"
       "unmarshalPrivateKey E kb' = Inr sk'" "idFromPrivateKey E sk' = Inr pid'"
       "GetAlbumByName n2 (Datastore t2') =
          Some \<lparr>Id_album = pid', Key = sk', Mnemonic = mnemonic, Name = n2\<rparr>"
    by blast
  from 1 2 have "kb' = kb" by simp
  with 1 2 have "sk' = sk" by simp
  with 1 2 have "pid' = pid" by simp
  with 1 2 \<open>sk' = sk\<close> show ?thesis by simp
qed

theorem identity_deterministic_witness:
  "\<exists>a1 a2 kb.
     GetAlbumByName ''birds''
       (Datastore (snd (RegisterAlbum demo_env ''w'' ''birds'' demo_node))) = Some a1 \<and>
     GetAlbumByName ''fish''
       (Datastore (snd (RegisterAlbum demo_env ''w'' ''fish'' republish_node))) = Some a2 \<and>
     identityKeyFromSeed demo_env (newSeed demo_env ''w'' []) = Inr kb \<and>
     unmarshalPrivateKey demo_env kb = Inr (Key a1) \<and>
     Key a1 = Key a2 \<and> Id_album a1 = Id_album a2"
proof -
  have 1: "GetAlbumByName ''birds'' (Datastore demo_node) = None"
    by (simp add: GetAlbumByName_def demo_node_def demo_album_def)
  have 2: "GetAlbumByName ''fish'' (Datastore republish_node) = None"
    by (simp add: GetAlbumByName_def republish_node_def demo_node_def demo_album_def
        demo_album_B_def)
  have 3: "fst (RegisterAlbum demo_env ''w'' ''birds'' demo_node) = None"
    by (simp add: RegisterAlbum_def identityKeyFromSeed_def demo_env_def Albums_Put_def
        GetAlbumByName_def demo_node_def demo_album_def Let_def)
  have 4: "fst (RegisterAlbum demo_env ''w'' ''fish'' republish_node) = None"
    by (simp add: RegisterAlbum_def identityKeyFromSeed_def demo_env_def Albums_Put_def
        GetAlbumByName_def republish_node_def demo_node_def demo_album_def demo_album_B_def
        Let_def)
  from 3 have r3: "RegisterAlbum demo_env ''w'' ''birds'' demo_node =
      (None, snd (RegisterAlbum demo_env ''w'' ''birds'' demo_node))"
    by (metis prod.collapse)
  from 4 have r4: "RegisterAlbum demo_env ''w'' ''fish'' republish_node =
      (None, snd (RegisterAlbum demo_env ''w'' ''fish'' republish_node))"
    by (metis prod.collapse)
  show ?thesis by (rule identity_deterministic [OF 1 2 r3 r4])
qed

subsection \<open>One hop of the walk\<close>

text \<open>
  The pins of a hop change neither the datastore nor what the readers of the store see
  of the node.
\<close>

lemma same_access_refl: "same_access t t"
  by (simp add: same_access_def)

lemma same_access_trans: "same_access t t' \<Longrightarrow> same_access t' t'' \<Longrightarrow> same_access t t''"
  by (simp add: same_access_def)

lemma pinPath_access: "same_access t (snd (pinPath E p r t))"
  by (simp add: pinPath_def same_access_def split: sum.splits option.splits)

lemma pinPath_Datastore: "Datastore (snd (pinPath E p r t)) = Datastore t"
  by (simp add: pinPath_def split: sum.splits option.splits)

lemma pinPath_pinnable:
  "pinnable E p \<Longrightarrow> IpfsNode t \<noteq> None \<Longrightarrow> pinPath E p False t = (None, snd (pinPath E p False t))"
  by (auto simp: pinPath_def pinnable_def split: sum.splits option.splits)

lemma GetFile_same_access:
  "same_access t t' \<Longrightarrow> GetFile E p (Some a) t' = GetFile E p (Some a) t"
  by (auto simp: GetFile_def getDataAtPath_def Online_def same_access_def Let_def
      split: sum.splits option.splits)

lemma Online_same_access: "same_access t t' \<Longrightarrow> Online t' = Online t"
  by (simp add: Online_def same_access_def)

lemma GetMetaData_same_access:
  "same_access t t' \<Longrightarrow> GetMetaData E h (Some a) t' = GetMetaData E h (Some a) t"
  unfolding GetMetaData_def by (simp only: GetFile_same_access [of t t'] Online_same_access [of t t'])

lemma GetLastHash_same_access:
  "same_access t t' \<Longrightarrow> GetLastHash E h (Some a) t' = GetLastHash E h (Some a) t"
  unfolding GetLastHash_def by (simp only: GetFile_same_access [of t t'] Online_same_access [of t t'])

lemma GetCaption_same_access:
  "same_access t t' \<Longrightarrow> GetCaption E h (Some a) t' = GetCaption E h (Some a) t"
  unfolding GetCaption_def by (simp only: GetFile_same_access [of t t'] Online_same_access [of t t'])

lemma GetFile_needs_node: "GetFile E p album t = Inr b \<Longrightarrow> IpfsNode t \<noteq> None"
  by (auto simp: GetFile_def getDataAtPath_def split: if_splits sum.splits option.splits)

lemma GetLastHash_needs_node: "GetLastHash E h album t = Inr l \<Longrightarrow> IpfsNode t \<noteq> None"
  by (auto simp: GetLastHash_def dest: GetFile_needs_node split: if_splits)

lemma pinParts_access: "same_access t (pinParts E h t)"
  unfolding pinParts_def
  by (rule same_access_trans [OF same_access_trans [OF same_access_trans
        [OF same_access_trans [OF pinPath_access pinPath_access] pinPath_access]
        pinPath_access] pinPath_access])

lemma pinParts_Datastore: "Datastore (pinParts E h t) = Datastore t"
  by (simp add: pinParts_def pinPath_Datastore)



text \<open>
  The first part of a hop on a registered thread, for a hash that is new and whose four
  mandatory parts can be pinned: what is left are the three reads.
\<close>

lemma handleHash_fetch_pinned:
  assumes alb: "GetAlbum aid (Datastore t) = Some a"
    and ne: "hash \<noteq> []"
    and new: "GetPhoto hash (Datastore t) = None"
    and n0: "IpfsNode t \<noteq> None"
    and p0: "pinnable E hash"
    and p1: "pinnable E (hash @ ''/thumb'')"
    and p2: "pinnable E (hash @ ''/meta'')"
    and p3: "pinnable E (hash @ ''/last'')"
  shows "handleHash_fetch E hash aid t =
           (case GetMetaData E hash (Some a) t of
              Inl err \<Rightarrow> (Return (Some err), pinParts E hash t)
            | Inr md \<Rightarrow>
                (case GetLastHash E hash (Some a) t of
                   Inl err \<Rightarrow> (Return (Some err), pinParts E hash t)
                 | Inr l \<Rightarrow>
                     (case md of
                        None \<Rightarrow> (Return (Some (Panic ''nil pointer dereference'')),
                                 pinParts E hash t)
                      | Some m \<Rightarrow>
                          (Indexing \<lparr>Cid = hash, LastCid = l, AlbumID = aid, MetaData = m,
                             Caption = (case GetCaption E hash (Some a) t of
                                          Inl err \<Rightarrow> [] | Inr c \<Rightarrow> c),
                             IsLocal = False\<rparr> a,
                           pinParts E hash t))))"
proof -
  define t1 where "t1 = snd (pinPath E hash False t)"
  define t2 where "t2 = snd (pinPath E (hash @ ''/thumb'') False t1)"
  define t3 where "t3 = snd (pinPath E (hash @ ''/meta'') False t2)"
  define t4 where "t4 = snd (pinPath E (hash @ ''/last'') False t3)"
  define t5 where "t5 = snd (pinPath E (hash @ ''/caption'') False t4)"
  have a1: "same_access t t1"
    unfolding t1_def by (rule pinPath_access)
  have a2: "same_access t t2"
    unfolding t2_def by (rule same_access_trans [OF a1 pinPath_access])
  have a3: "same_access t t3"
    unfolding t3_def by (rule same_access_trans [OF a2 pinPath_access])
  have a4: "same_access t t4"
    unfolding t4_def by (rule same_access_trans [OF a3 pinPath_access])
  have a5: "same_access t t5"
    unfolding t5_def by (rule same_access_trans [OF a4 pinPath_access])
  have n1: "IpfsNode t1 \<noteq> None" using a1 n0 by (simp add: same_access_def)
  have n2: "IpfsNode t2 \<noteq> None" using a2 n0 by (simp add: same_access_def)
  have n3: "IpfsNode t3 \<noteq> None" using a3 n0 by (simp add: same_access_def)
  have q0: "pinPath E hash False t = (None, t1)"
    unfolding t1_def using p0 n0 by (rule pinPath_pinnable)
  have q1: "pinPath E (hash @ ''/thumb'') False t1 = (None, t2)"
    unfolding t2_def using p1 n1 by (rule pinPath_pinnable)
  have q2: "pinPath E (hash @ ''/meta'') False t2 = (None, t3)"
    unfolding t3_def using p2 n2 by (rule pinPath_pinnable)
  have q3: "pinPath E (hash @ ''/last'') False t3 = (None, t4)"
    unfolding t4_def using p3 n3 by (rule pinPath_pinnable)
  have t5: "pinParts E hash t = t5"
    by (simp add: pinParts_def t5_def t4_def t3_def t2_def t1_def)
  have cap: "snd (pinPath E (hash @ ''/caption'') False t4) = t5"
    by (simp only: t5_def)
  show ?thesis
    unfolding handleHash_fetch_def t5
    by (simp only: alb ne new q0 q1 q2 q3 cap Let_def option.case prod.case if_False
        GetMetaData_same_access [OF a5] GetLastHash_same_access [OF a5]
        GetCaption_same_access [OF a5])
qed

lemma handleHash_fetch_ok:
  assumes alb: "GetAlbum aid (Datastore t) = Some a"
    and ne: "hash \<noteq> []"
    and new: "GetPhoto hash (Datastore t) = None"
    and p0: "pinnable E hash"
    and p1: "pinnable E (hash @ ''/thumb'')"
    and p2: "pinnable E (hash @ ''/meta'')"
    and p3: "pinnable E (hash @ ''/last'')"
    and md: "GetMetaData E hash (Some a) t = Inr (Some m)"
    and lh: "GetLastHash E hash (Some a) t = Inr l"
  shows "handleHash_fetch E hash aid t =
           (Indexing \<lparr>Cid = hash, LastCid = l, AlbumID = aid, MetaData = m,
                      Caption = (case GetCaption E hash (Some a) t of
                                   Inl err \<Rightarrow> [] | Inr c \<Rightarrow> c),
                      IsLocal = False\<rparr> a,
            pinParts E hash t)"
proof -
  have n0: "IpfsNode t \<noteq> None" using lh by (rule GetLastHash_needs_node)
  show ?thesis
    by (simp add: handleHash_fetch_pinned [OF alb ne new n0 p0 p1 p2 p3] md lh)
qed

lemma handleHash_index_ok:
  assumes "GetPhoto (Cid p) (Datastore t) = None" and "\<not> closed datac"
  shows "handleHash_index p a datac t =
           (None, t\<lparr>Datastore := (Datastore t)\<lparr>photos := p # photos (Datastore t)\<rparr>\<rparr>,
            if length (buffer datac) < capacity datac
            then datac\<lparr>buffer := buffer datac @
                   [\<lparr>Cid_update = Cid p, Thread = Name a, ThreadID = Id_album a\<rparr>]\<rparr>
            else datac)"
  using assms by (simp add: handleHash_index_def Photos_Put_def send_nb_def)

text \<open>A complete hop: the record is indexed, the listener is told, the walk goes on.\<close>

lemma handleHash_hop:
  assumes alb: "GetAlbum aid (Datastore t) = Some a"
    and ne: "hash \<noteq> []"
    and new: "GetPhoto hash (Datastore t) = None"
    and p0: "pinnable E hash"
    and p1: "pinnable E (hash @ ''/thumb'')"
    and p2: "pinnable E (hash @ ''/meta'')"
    and p3: "pinnable E (hash @ ''/last'')"
    and md: "GetMetaData E hash (Some a) t = Inr (Some m)"
    and lh: "GetLastHash E hash (Some a) t = Inr l"
    and op: "\<not> closed datac"
  shows "handleHash E hash aid datac t =
           handleHash E l aid
             (if length (buffer datac) < capacity datac
              then datac\<lparr>buffer := buffer datac @
                     [\<lparr>Cid_update = hash, Thread = Name a, ThreadID = Id_album a\<rparr>]\<rparr>
              else datac)
             ((pinParts E hash t)\<lparr>Datastore := (Datastore t)\<lparr>photos :=
                \<lparr>Cid = hash, LastCid = l, AlbumID = aid, MetaData = m,
                 Caption = (case GetCaption E hash (Some a) t of Inl err \<Rightarrow> [] | Inr c \<Rightarrow> c),
                 IsLocal = False\<rparr> # photos (Datastore t)\<rparr>\<rparr>)"
proof -
  let ?p = "\<lparr>Cid = hash, LastCid = l, AlbumID = aid, MetaData = m,
             Caption = (case GetCaption E hash (Some a) t of Inl err \<Rightarrow> [] | Inr c \<Rightarrow> c),
             IsLocal = False\<rparr>"
  have f: "handleHash_fetch E hash aid t = (Indexing ?p a, pinParts E hash t)"
    using alb ne new p0 p1 p2 p3 md lh by (rule handleHash_fetch_ok)
  have d: "Datastore (pinParts E hash t) = Datastore t"
    by (rule pinParts_Datastore)
  have "GetPhoto (Cid ?p) (Datastore (pinParts E hash t)) = None"
    using new d by simp
  from handleHash_index_ok [OF this op, of a]
  show ?thesis
    by (subst handleHash.simps) (simp add: f d)
qed


text \<open>
  C8. In a hop on a registered thread, for a new hash whose mandatory parts can be
  pinned and with the listener channel open: when metadata and back-pointer are read and
  the caption is not, the walk goes on from the back-pointer with the record indexed
  under an empty caption and the notification sent (or dropped, if the listener is not
  ready); when the metadata or the back-pointer cannot be read, the walk returns that
  error, and the index and the channel are as before.
\<close>

theorem caption_failure_nonfatal:
  assumes alb: "GetAlbum aid (Datastore t) = Some a"
    and ne: "hash \<noteq> []"
    and new: "GetPhoto hash (Datastore t) = None"
    and n0: "IpfsNode t \<noteq> None"
    and p0: "pinnable E hash"
    and p1: "pinnable E (hash @ ''/thumb'')"
    and p2: "pinnable E (hash @ ''/meta'')"
    and p3: "pinnable E (hash @ ''/last'')"
    and op: "\<not> closed datac"
  shows "(GetMetaData E hash (Some a) t = Inr (Some m) \<and>
          GetLastHash E hash (Some a) t = Inr l \<and>
          GetCaption E hash (Some a) t = Inl e \<longrightarrow>
            handleHash E hash aid datac t =
              handleHash E l aid
                (if length (buffer datac) < capacity datac
                 then datac\<lparr>buffer := buffer datac @
                        [\<lparr>Cid_update = hash, Thread = Name a, ThreadID = Id_album a\<rparr>]\<rparr>
                 else datac)
                ((pinParts E hash t)\<lparr>Datastore := (Datastore t)\<lparr>photos :=
                   \<lparr>Cid = hash, LastCid = l, AlbumID = aid, MetaData = m, Caption = [],
                    IsLocal = False\<rparr> # photos (Datastore t)\<rparr>\<rparr>)) \<and>
         (GetMetaData E hash (Some a) t = Inl e \<longrightarrow>
            handleHash E hash aid datac t = Some (Some e, pinParts E hash t, datac)) \<and>
         (GetMetaData E hash (Some a) t = Inr (Some m) \<and>
          GetLastHash E hash (Some a) t = Inl e \<longrightarrow>
            handleHash E hash aid datac t = Some (Some e, pinParts E hash t, datac)) \<and>
         Datastore (pinParts E hash t) = Datastore t"
proof (intro conjI impI)
  assume "GetMetaData E hash (Some a) t = Inr (Some m) \<and>
          GetLastHash E hash (Some a) t = Inr l \<and>
          GetCaption E hash (Some a) t = Inl e"
  then have md: "GetMetaData E hash (Some a) t = Inr (Some m)"
    and lh: "GetLastHash E hash (Some a) t = Inr l"
    and cp: "GetCaption E hash (Some a) t = Inl e"
    by simp_all
  from handleHash_hop [OF alb ne new p0 p1 p2 p3 md lh op]
  show "handleHash E hash aid datac t =
          handleHash E l aid
            (if length (buffer datac) < capacity datac
             then datac\<lparr>buffer := buffer datac @
                    [\<lparr>Cid_update = hash, Thread = Name a, ThreadID = Id_album a\<rparr>]\<rparr>
             else datac)
            ((pinParts E hash t)\<lparr>Datastore := (Datastore t)\<lparr>photos :=
               \<lparr>Cid = hash, LastCid = l, AlbumID = aid, MetaData = m, Caption = [],
                IsLocal = False\<rparr> # photos (Datastore t)\<rparr>\<rparr>)"
    by (simp add: cp)
next
  assume "GetMetaData E hash (Some a) t = Inl e"
  then show "handleHash E hash aid datac t = Some (Some e, pinParts E hash t, datac)"
    by (subst handleHash.simps)
      (simp add: handleHash_fetch_pinned [OF alb ne new n0 p0 p1 p2 p3])
next
  assume "GetMetaData E hash (Some a) t = Inr (Some m) \<and>
          GetLastHash E hash (Some a) t = Inl e"
  then show "handleHash E hash aid datac t = Some (Some e, pinParts E hash t, datac)"
    by (subst handleHash.simps)
      (simp add: handleHash_fetch_pinned [OF alb ne new n0 p0 p1 p2 p3])
next
  show "Datastore (pinParts E hash t) = Datastore t"
    by (rule pinParts_Datastore)
qed


text \<open>Unfolding sets for evaluation on the small store.\<close>

lemmas demo_defs = demo_env_def demo_node_def demo_album_def demo_chan_def demo_store_def
  demo_md_def

lemmas read_defs = GetMetaData_def GetLastHash_def GetCaption_def GetFile_def
  getDataAtPath_def Online_def Let_def

theorem caption_failure_nonfatal_witness:
  "handleHash demo_env ''h2'' ''A'' demo_chan demo_node =
     handleHash demo_env [] ''A''
       (demo_chan\<lparr>buffer := [\<lparr>Cid_update = ''h2'', Thread = ''cats'', ThreadID = ''A''\<rparr>]\<rparr>)
       ((pinParts demo_env ''h2'' demo_node)\<lparr>Datastore := (Datastore demo_node)\<lparr>photos :=
          [\<lparr>Cid = ''h2'', LastCid = [], AlbumID = ''A'', MetaData = demo_md, Caption = [],
            IsLocal = False\<rparr>]\<rparr>\<rparr>) \<and>
   handleHash demo_env ''h4'' ''A'' demo_chan demo_node =
     Some (Some (Error ''no link''), pinParts demo_env ''h4'' demo_node, demo_chan) \<and>
   handleHash demo_env ''h3'' ''A'' demo_chan demo_node =
     Some (Some (Error ''no link''), pinParts demo_env ''h3'' demo_node, demo_chan)"
proof -
  have alb: "GetAlbum ''A'' (Datastore demo_node) = Some demo_album"
    by (simp add: GetAlbum_def demo_defs)
  have new: "GetPhoto h (Datastore demo_node) = None" for h
    by (simp add: GetPhoto_def demo_defs)
  have n0: "IpfsNode demo_node \<noteq> None"
    by (simp add: demo_defs)
  have pin: "pinnable demo_env (CHR ''h'' # x)" for x
    by (simp add: pinnable_def demo_defs)
  have op: "\<not> closed demo_chan"
    by (simp add: demo_defs)
  have 1: "GetMetaData demo_env ''h2'' (Some demo_album) demo_node = Inr (Some demo_md) \<and>
           GetLastHash demo_env ''h2'' (Some demo_album) demo_node = Inr [] \<and>
           GetCaption demo_env ''h2'' (Some demo_album) demo_node = Inl (Error ''no link'')"
    by (simp add: read_defs demo_defs)
  have 2: "GetMetaData demo_env ''h4'' (Some demo_album) demo_node = Inl (Error ''no link'')"
    by (simp add: read_defs demo_defs)
  have 3: "GetMetaData demo_env ''h3'' (Some demo_album) demo_node = Inr (Some demo_md) \<and>
           GetLastHash demo_env ''h3'' (Some demo_album) demo_node = Inl (Error ''no link'')"
    by (simp add: read_defs demo_defs)
  have c: "(if length (buffer demo_chan) < capacity demo_chan
            then demo_chan\<lparr>buffer := buffer demo_chan @ [u]\<rparr> else demo_chan) =
           demo_chan\<lparr>buffer := [u]\<rparr>" for u
    by (simp add: demo_defs)
  have d: "photos (Datastore demo_node) = []"
    by (simp add: demo_defs)
  have nm: "Name demo_album = ''cats''" "Id_album demo_album = ''A''"
    by (simp_all add: demo_defs)
  from caption_failure_nonfatal [where E = demo_env and hash = "''h2''" and m = demo_md
      and l = "[]" and e = "Error ''no link''", OF alb _ new n0 _ _ _ _ op]
    caption_failure_nonfatal [where E = demo_env and hash = "''h4''" and m = demo_md
      and l = "[]" and e = "Error ''no link''", OF alb _ new n0 _ _ _ _ op]
    caption_failure_nonfatal [where E = demo_env and hash = "''h3''" and m = demo_md
      and l = "[]" and e = "Error ''no link''", OF alb _ new n0 _ _ _ _ op]
  show ?thesis
    by (simp add: pin 1 2 3 c d nm)
qed

subsection \<open>Walking a chain\<close>

text \<open>The walk stops with success at the genesis pointer of a registered thread.\<close>

lemma handleHash_genesis:
  "GetAlbum aid (Datastore t) = Some a \<Longrightarrow> handleHash E [] aid datac t = Some (None, t, datac)"
  by (subst handleHash.simps) (simp add: handleHash_fetch_def)

lemma GetPhoto_put:
  "GetPhoto x (ds\<lparr>photos := p # photos ds\<rparr>) = (if Cid p = x then Some p else GetPhoto x ds)"
  by (simp add: GetPhoto_def)

lemma same_access_Datastore: "same_access t (t'\<lparr>Datastore := d\<rparr>) = same_access t t'"
  by (simp add: same_access_def)

text \<open>
  On a running node \<open>GetFile\<close> with the album given returns the plaintext of the part:
  it reads the bytes under the normalised path and decrypts them under the album key.
\<close>

lemma GetFile_plaintext:
  assumes "IpfsNode t \<noteq> None"
  shows "(case GetFile E p (Some a) t of Inl err \<Rightarrow> None | Inr b \<Rightarrow> Some b) =
           plaintext E (Key a) p"
  using assms
  by (auto simp: GetFile_def getDataAtPath_def Online_def plaintext_def Let_def
      split: sum.splits option.splits)

lemma GetFile_plaintext_Some:
  "IpfsNode t \<noteq> None \<Longrightarrow> plaintext E (Key a) p = Some b \<Longrightarrow> GetFile E p (Some a) t = Inr b"
  using GetFile_plaintext [of t E p a] by (simp split: sum.splits)

text \<open>A hop on a hash under which an update is stored indexes exactly that update.\<close>

lemma remote_update_hop:
  assumes n0: "IpfsNode t \<noteq> None"
    and alb: "GetAlbum aid (Datastore t) = Some a"
    and new: "GetPhoto h (Datastore t) = None"
    and ru: "remote_update E a aid h = Some p"
    and op: "\<not> closed datac"
  shows "handleHash E h aid datac t =
           handleHash E (LastCid p) aid
             (if length (buffer datac) < capacity datac
              then datac\<lparr>buffer := buffer datac @
                     [\<lparr>Cid_update = h, Thread = Name a, ThreadID = Id_album a\<rparr>]\<rparr>
              else datac)
             ((pinParts E h t)\<lparr>Datastore := (Datastore t)\<lparr>photos :=
                p # photos (Datastore t)\<rparr>\<rparr>)"
proof -
  from ru have ne: "h \<noteq> []" and p0: "pinnable E h" and p1: "pinnable E (h @ ''/thumb'')"
    and p2: "pinnable E (h @ ''/meta'')" and p3: "pinnable E (h @ ''/last'')"
    by (simp_all add: remote_update_def split: if_splits)
  from ru ne p0 p1 p2 p3 obtain mb m l where
    mb: "plaintext E (Key a) (h @ ''/meta'') = Some mb" and
    m: "unmarshalMetadata E mb = Inr (Some m)" and
    l: "plaintext E (Key a) (h @ ''/last'') = Some l" and
    p: "p = \<lparr>Cid = h, LastCid = l, AlbumID = aid, MetaData = m,
             Caption = (case plaintext E (Key a) (h @ ''/caption'') of
                          None \<Rightarrow> [] | Some c \<Rightarrow> c),
             IsLocal = False\<rparr>"
    by (auto simp: remote_update_def split: option.splits sum.splits)
  have on: "Online t" using n0 by (simp add: Online_def)
  have md: "GetMetaData E h (Some a) t = Inr (Some m)"
    using on m by (simp add: GetMetaData_def GetFile_plaintext_Some [OF n0 mb])
  have lh: "GetLastHash E h (Some a) t = Inr l"
    using on by (simp add: GetLastHash_def GetFile_plaintext_Some [OF n0 l])
  have cp: "(case GetCaption E h (Some a) t of Inl err \<Rightarrow> [] | Inr c \<Rightarrow> c) =
            (case plaintext E (Key a) (h @ ''/caption'') of None \<Rightarrow> [] | Some c \<Rightarrow> c)"
    using on by (simp add: GetCaption_def GetFile_plaintext [OF n0, symmetric] split: sum.splits)
  from handleHash_hop [OF alb ne new p0 p1 p2 p3 md lh op]
  show ?thesis by (simp add: p cp)
qed

text \<open>
  The back-pointer of an update is a function of its content id, so a chain is determined
  by its head and does not come back to it.
\<close>

lemma remote_update_Cid: "remote_update E a aid h = Some p \<Longrightarrow> Cid p = h \<and> h \<noteq> []"
  by (auto simp: remote_update_def split: if_splits option.splits sum.splits)

lemma chain_Cons:
  "chain E a aid (h # hs) =
     (case remote_update E a aid h of
        None \<Rightarrow> False
      | Some p \<Rightarrow>
          LastCid p = (case hs of [] \<Rightarrow> [] | h' # r \<Rightarrow> h') \<and>
          (case hs of [] \<Rightarrow> True | h' # r \<Rightarrow> chain E a aid hs))"
  by (cases hs) (simp_all split: option.splits)

lemma chain_suffix: "chain E a aid (xs @ h # ys) \<Longrightarrow> chain E a aid (h # ys)"
proof (induction xs)
  case Nil
  then show ?case by simp
next
  case (Cons x xs)
  then show ?case by (cases xs) (simp_all split: option.splits)
qed

lemma chain_unique: "chain E a aid (h # xs) \<Longrightarrow> chain E a aid (h # ys) \<Longrightarrow> xs = ys"
proof (induction xs arbitrary: h ys)
  case Nil
  then obtain p where p: "remote_update E a aid h = Some p" "LastCid p = []"
    by (auto split: option.splits)
  show ?case
  proof (cases ys)
    case Nil
    then show ?thesis by simp
  next
    case (Cons y ys')
    with Nil.prems(2) p have "chain E a aid ([] # ys')" by auto
    then obtain q where "remote_update E a aid [] = Some q"
      by (auto simp: chain_Cons split: option.splits)
    then show ?thesis using remote_update_Cid by blast
  qed
next
  case (Cons x xs)
  from Cons.prems(1) obtain p where p: "remote_update E a aid h = Some p" "LastCid p = x"
    and cx: "chain E a aid (x # xs)"
    by (auto split: option.splits)
  from cx have "x \<noteq> []" using remote_update_Cid [of E a aid x]
    by (auto simp: chain_Cons split: option.splits)
  with Cons.prems(2) p obtain ys' where ys: "ys = x # ys'"
    by (cases ys) simp_all
  with Cons.prems(2) p have "chain E a aid (x # ys')" by simp
  from Cons.IH [OF cx this] ys show ?case by simp
qed

lemma chain_head_fresh: "chain E a aid (h # hs) \<Longrightarrow> h \<notin> set hs"
proof
  assume c: "chain E a aid (h # hs)" and "h \<in> set hs"
  then obtain xs ys where hs: "hs = xs @ h # ys" by (auto simp: in_set_conv_decomp)
  with c have "chain E a aid ((h # xs) @ h # ys)" by simp
  then have "chain E a aid (h # ys)" by (rule chain_suffix)
  with c have "hs = ys" by (rule chain_unique)
  with hs show False by simp
qed

text \<open>The walk stops with success, and without any effect, at an indexed hash.\<close>

lemma handleHash_indexed:
  "GetAlbum aid (Datastore t) = Some a \<Longrightarrow> GetPhoto h (Datastore t) \<noteq> None \<Longrightarrow>
   handleHash E h aid datac t = Some (None, t, datac)"
  by (subst handleHash.simps) (auto simp: handleHash_fetch_def)

text \<open>
  The walk along a chain, by induction on its part that is not indexed: every hop indexes
  its record and hands the rest of the chain to the next call.
\<close>

lemma walk_chain:
  assumes "chain E a aid (new @ old)"
    and "IpfsNode t \<noteq> None"
    and "GetAlbum aid (Datastore t) = Some a"
    and "\<forall>h \<in> set new. GetPhoto h (Datastore t) = None"
    and "case old of [] \<Rightarrow> True | h # r \<Rightarrow> GetPhoto h (Datastore t) \<noteq> None"
    and "\<not> closed datac"
  shows "\<exists>t' c' ps. handleHash E (hd (new @ old)) aid datac t = Some (None, t', c') \<and>
           photos (Datastore t') = ps @ photos (Datastore t) \<and>
           list_all2 (\<lambda>h p. remote_update E a aid h = Some p) (rev new) ps"
  using assms
proof (induction new arbitrary: t datac)
  case Nil
  then obtain h r where old: "old = h # r" by (cases old) simp_all
  with Nil.prems(5) have "GetPhoto h (Datastore t) \<noteq> None" by simp
  with Nil.prems(3) old have "handleHash E (hd ([] @ old)) aid datac t = Some (None, t, datac)"
    by (simp add: handleHash_indexed)
  then show ?case by simp
next
  case (Cons h new)
  let ?rest = "new @ old"
  from Cons.prems(1) obtain p where ru: "remote_update E a aid h = Some p"
    and lp: "LastCid p = (case ?rest of [] \<Rightarrow> [] | h' # r \<Rightarrow> h')"
    and tl: "case ?rest of [] \<Rightarrow> True | h' # r \<Rightarrow> chain E a aid ?rest"
    by (auto simp: chain_Cons split: option.splits)
  define c2 where "c2 = (if length (buffer datac) < capacity datac
      then datac\<lparr>buffer := buffer datac @
             [\<lparr>Cid_update = h, Thread = Name a, ThreadID = Id_album a\<rparr>]\<rparr>
      else datac)"
  define t2 where "t2 = (pinParts E h t)\<lparr>Datastore := (Datastore t)\<lparr>photos :=
      p # photos (Datastore t)\<rparr>\<rparr>"
  from Cons.prems(4) have new: "GetPhoto h (Datastore t) = None" by simp
  have hop: "handleHash E h aid datac t = handleHash E (LastCid p) aid c2 t2"
    unfolding c2_def t2_def
    by (rule remote_update_hop [OF Cons.prems(2,3) new ru Cons.prems(6)])
  have cid: "Cid p = h" using ru remote_update_Cid by blast
  have acc: "same_access t t2"
    unfolding t2_def by (simp only: same_access_Datastore pinParts_access)
  have n2: "IpfsNode t2 \<noteq> None"
    using acc Cons.prems(2) by (simp add: same_access_def)
  have alb2: "GetAlbum aid (Datastore t2) = Some a"
    using Cons.prems(3) by (simp add: t2_def GetAlbum_def)
  have ph2: "photos (Datastore t2) = p # photos (Datastore t)"
    by (simp add: t2_def)
  have gp2: "GetPhoto x (Datastore t2) = (if h = x then Some p else GetPhoto x (Datastore t))"
    for x
    by (simp add: t2_def GetPhoto_put cid)
  have op2: "\<not> closed c2"
    using Cons.prems(6) by (simp add: c2_def)
  show ?case
  proof (cases ?rest)
    case Nil
    then have "LastCid p = []" "new = []" using lp by simp_all
    with hop handleHash_genesis [OF alb2, of E c2]
    have "handleHash E (hd ((h # new) @ old)) aid datac t = Some (None, t2, c2)" by simp
    moreover have "photos (Datastore t2) = [p] @ photos (Datastore t)"
      using ph2 by simp
    moreover have "list_all2 (\<lambda>h p. remote_update E a aid h = Some p) (rev (h # new)) [p]"
      using \<open>new = []\<close> ru by simp
    ultimately show ?thesis by blast
  next
    case (Cons h' r)
    then have l: "LastCid p = hd ?rest" and ch: "chain E a aid ?rest"
      using lp tl by simp_all
    have "h \<notin> set ?rest" using Cons.prems(1) chain_head_fresh [of E a aid h ?rest] by simp
    then have hn: "h \<notin> set new" and ho: "h \<notin> set old" by simp_all
    from hn Cons.prems(4)
    have new2: "\<forall>x \<in> set new. GetPhoto x (Datastore t2) = None"
      by (auto simp: gp2)
    from Cons.prems(5)
    have old2: "case old of [] \<Rightarrow> True | x # r \<Rightarrow> GetPhoto x (Datastore t2) \<noteq> None"
      by (auto simp: gp2 split: list.splits)
    from Cons.IH [OF ch n2 alb2 new2 old2 op2] obtain t' c' ps where
      r: "handleHash E (hd ?rest) aid c2 t2 = Some (None, t', c')"
         "photos (Datastore t') = ps @ photos (Datastore t2)"
         "list_all2 (\<lambda>h p. remote_update E a aid h = Some p) (rev new) ps"
      by blast
    from r(1) hop l
    have "handleHash E (hd ((h # new) @ old)) aid datac t = Some (None, t', c')" by simp
    moreover have "photos (Datastore t') = (ps @ [p]) @ photos (Datastore t)"
      using r(2) ph2 by simp
    moreover have "list_all2 (\<lambda>h p. remote_update E a aid h = Some p) (rev (h # new))
        (ps @ [p])"
      using r(3) ru by (simp add: list_all2_appendI)
    ultimately show ?thesis by blast
  qed
qed


lemma remote_update_Cids:
  "list_all2 (\<lambda>h p. remote_update E a aid h = Some p) hs ps \<Longrightarrow> map Cid ps = hs"
  by (induction hs ps rule: list_all2_induct) (simp_all add: remote_update_Cid)

text \<open>
  C2. Let a chain of updates of a registered thread be stored, on a running node with
  the listener channel open, and let it split into a newer part of which nothing is
  indexed and an older part whose first record is indexed (or which is empty). Then
  \<open>handleHash\<close> on the head of the chain returns, and returns \<open>nil\<close>; afterwards the index
  is the old index with the records of the newer part in front, and each of them is the
  update stored under its content id: metadata decrypted under the thread key and
  decoded, back-pointer and caption decrypted, the caption empty where there is none.
  With an empty older part these are all \<open>N\<close> records of the chain. The walk does not go
  past an indexed record.
\<close>

theorem chain_walk_backfills:
  assumes "chain E a aid (new @ old)"
    and "IpfsNode t \<noteq> None"
    and "GetAlbum aid (Datastore t) = Some a"
    and "\<forall>h \<in> set new. GetPhoto h (Datastore t) = None"
    and "case old of [] \<Rightarrow> True | h # r \<Rightarrow> GetPhoto h (Datastore t) \<noteq> None"
    and "\<not> closed datac"
  shows "\<exists>t' c' ps. handleHash E (hd (new @ old)) aid datac t = Some (None, t', c') \<and>
           photos (Datastore t') = ps @ photos (Datastore t) \<and>
           list_all2 (\<lambda>h p. remote_update E a aid h = Some p) (rev new) ps \<and>
           map Cid ps = rev new"
proof -
  from walk_chain [OF assms] obtain t' c' ps where
    w: "handleHash E (hd (new @ old)) aid datac t = Some (None, t', c')"
       "photos (Datastore t') = ps @ photos (Datastore t)"
       "list_all2 (\<lambda>h p. remote_update E a aid h = Some p) (rev new) ps"
    by blast
  from w(3) have "map Cid ps = rev new" by (rule remote_update_Cids)
  with w show ?thesis by blast
qed

text \<open>Evaluation on the small store.\<close>

lemmas store_defs = remote_update_def plaintext_def pinnable_def

lemma demo_chain: "chain demo_env demo_album ''A'' [''h1'', ''h2'']"
  by (simp add: store_defs demo_defs)

theorem chain_walk_backfills_witness:
  "\<exists>t' c' ps. handleHash demo_env ''h1'' ''A'' demo_chan demo_node = Some (None, t', c') \<and>
     photos (Datastore t') = ps \<and>
     list_all2 (\<lambda>h p. remote_update demo_env demo_album ''A'' h = Some p) [''h2'', ''h1''] ps \<and>
     map Cid ps = [''h2'', ''h1'']"
proof -
  have 1: "chain demo_env demo_album ''A'' ([''h1'', ''h2''] @ [])"
    using demo_chain by simp
  have 2: "IpfsNode demo_node \<noteq> None"
    by (simp add: demo_defs)
  have 3: "GetAlbum ''A'' (Datastore demo_node) = Some demo_album"
    by (simp add: GetAlbum_def demo_defs)
  have 4: "\<forall>h \<in> set [''h1'', ''h2'']. GetPhoto h (Datastore demo_node) = None"
    by (simp add: GetPhoto_def demo_defs)
  have 5: "case [] :: string list of [] \<Rightarrow> True
           | h # r \<Rightarrow> GetPhoto h (Datastore demo_node) \<noteq> None"
    by simp
  have 6: "\<not> closed demo_chan"
    by (simp add: demo_defs)
  have 7: "photos (Datastore demo_node) = []"
    by (simp add: demo_defs)
  from chain_walk_backfills [OF 1 2 3 4 5 6] show ?thesis
    by (simp add: 7)
qed

text \<open>
  C2 as it is stated, for every stored chain whatever the index holds, fails: the walk
  does not index every record of a chain when a newer record is indexed and an older one
  is not. Here, on the node where \<open>h1\<close> is indexed and \<open>h2\<close> is not, the walk from the
  head \<open>h1\<close> of the stored chain \<open>h1\<close>, \<open>h2\<close> returns \<open>nil\<close> at once and \<open>h2\<close> stays out of
  the index.
\<close>

theorem chain_walk_gap_counterexample:
  "chain demo_env demo_album ''A'' [''h1'', ''h2''] \<and>
   IpfsNode gap_node \<noteq> None \<and>
   GetAlbum ''A'' (Datastore gap_node) = Some demo_album \<and>
   \<not> closed demo_chan \<and>
   handleHash demo_env ''h1'' ''A'' demo_chan gap_node = Some (None, gap_node, demo_chan) \<and>
   GetPhoto ''h2'' (Datastore gap_node) = None"
proof -
  have a: "GetAlbum ''A'' (Datastore gap_node) = Some demo_album"
    by (simp add: GetAlbum_def gap_node_def demo_defs)
  have i: "GetPhoto ''h1'' (Datastore gap_node) \<noteq> None"
    by (simp add: GetPhoto_def gap_node_def demo_remote_def demo_defs)
  have "handleHash demo_env ''h1'' ''A'' demo_chan gap_node = Some (None, gap_node, demo_chan)"
    using a i by (rule handleHash_indexed)
  moreover have "GetPhoto ''h2'' (Datastore gap_node) = None"
    by (simp add: GetPhoto_def gap_node_def demo_remote_def demo_defs)
  moreover have "IpfsNode gap_node \<noteq> None"
    by (simp add: gap_node_def demo_defs)
  moreover have "\<not> closed demo_chan"
    by (simp add: demo_defs)
  ultimately show ?thesis using demo_chain a by simp
qed

text \<open>
  That node arises from the empty index: a walk from \<open>h1\<close> at a moment when the metadata
  of \<open>h2\<close> cannot be fetched has indexed \<open>h1\<close> when it returns the error.
\<close>

lemma aborted_walk_leaves_gap:
  "map_option (\<lambda>(r, t', c'). (r, Datastore t'))
     (handleHash flaky_env ''h1'' ''A'' demo_chan demo_node) =
   Some (Some (Error ''timeout''), Datastore gap_node)"
  by (simp add: handleHash.simps handleHash_fetch_def handleHash_index_def pinPath_def
      GetAlbum_def GetPhoto_def Photos_Put_def send_nb_def read_defs flaky_env_def
      gap_node_def demo_remote_def demo_defs)

subsection \<open>Handling a content id twice\<close>

text \<open>What the two parts of a hop do to the datastore, and what their results say.\<close>

lemma pinPath_Datastore_eq: "pinPath E p r t = (res, t1) \<Longrightarrow> Datastore t1 = Datastore t"
  using pinPath_Datastore [of E p r t] by simp

lemma handleHash_fetch_Datastore:
  "handleHash_fetch E h aid t = (hop, t1) \<Longrightarrow> Datastore t1 = Datastore t"
  unfolding handleHash_fetch_def Let_def
  by (auto split: option.splits if_splits prod.splits sum.splits
      dest!: pinPath_Datastore_eq simp: pinPath_Datastore)

lemma handleHash_fetch_Return:
  "handleHash_fetch E h aid t = (Return None, t1) \<Longrightarrow>
   GetAlbum aid (Datastore t) \<noteq> None \<and> (h = [] \<or> GetPhoto h (Datastore t) \<noteq> None)"
  unfolding handleHash_fetch_def Let_def
  by (auto split: option.splits if_splits prod.splits sum.splits)

lemma handleHash_fetch_Indexing:
  "handleHash_fetch E h aid t = (Indexing p a, t1) \<Longrightarrow>
   Cid p = h \<and> GetPhoto h (Datastore t) = None \<and> GetAlbum aid (Datastore t) = Some a"
  unfolding handleHash_fetch_def Let_def
  by (auto split: option.splits if_splits prod.splits sum.splits)


lemma GetPhoto_None_iff: "GetPhoto x ds = None \<longleftrightarrow> x \<notin> Cid ` set (photos ds)"
  by (auto simp: GetPhoto_def find_None_iff)

lemma grows_refl: "grows ds ds"
  by (simp add: grows_def)

lemma grows_trans: "grows ds ds' \<Longrightarrow> grows ds' ds'' \<Longrightarrow> grows ds ds''"
  by (auto simp: grows_def)

lemma grows_put: "GetPhoto (Cid p) ds = None \<Longrightarrow> grows ds (ds\<lparr>photos := p # photos ds\<rparr>)"
  by (auto simp: grows_def GetPhoto_None_iff)

lemma handleHash_index_grows:
  "handleHash_index p a datac t1 = (res, t2, c2) \<Longrightarrow> grows (Datastore t1) (Datastore t2)"
  by (auto simp: handleHash_index_def Photos_Put_def grows_refl grows_put
      split: option.splits sum.splits)

lemma handleHash_index_None:
  "handleHash_index p a datac t1 = (None, t2, c2) \<Longrightarrow> GetPhoto (Cid p) (Datastore t2) = Some p"
  by (auto simp: handleHash_index_def Photos_Put_def GetPhoto_put
      split: option.splits sum.splits)

text \<open>
  Every walk that returns has only grown the index; if it returned \<open>nil\<close>, the thread is
  registered and the hash it started from is the genesis pointer or is indexed.
\<close>

lemma handleHash_post:
  assumes "handleHash E hash aid datac t = Some y"
  shows "grows (Datastore t) (Datastore (fst (snd y))) \<and>
         (fst y = None \<longrightarrow>
            GetAlbum aid (Datastore t) \<noteq> None \<and>
            (hash = [] \<or> GetPhoto hash (Datastore (fst (snd y))) \<noteq> None))"
proof (rule handleHash.raw_induct [where P = "\<lambda>E hash aid datac t y.
    grows (Datastore t) (Datastore (fst (snd y))) \<and>
    (fst y = None \<longrightarrow>
       GetAlbum aid (Datastore t) \<noteq> None \<and>
       (hash = [] \<or> GetPhoto hash (Datastore (fst (snd y))) \<noteq> None))", OF _ assms])
  fix f E hash aid datac t y
  assume IH: "\<And>E hash aid datac t y. f E hash aid datac t = Some y \<Longrightarrow>
      grows (Datastore t) (Datastore (fst (snd y))) \<and>
      (fst y = None \<longrightarrow>
         GetAlbum aid (Datastore t) \<noteq> None \<and>
         (hash = [] \<or> GetPhoto hash (Datastore (fst (snd y))) \<noteq> None))"
    and body: "(case handleHash_fetch E hash aid t of
        (Return r, t1) \<Rightarrow> Some (r, t1, datac)
      | (Indexing set0 a, t1) \<Rightarrow>
          (case handleHash_index set0 a datac t1 of
             (Some err, t2, c2) \<Rightarrow> Some (Some err, t2, c2)
           | (None, t2, c2) \<Rightarrow> f E (LastCid set0) aid c2 t2)) = Some y"
  obtain hop t1 where fe: "handleHash_fetch E hash aid t = (hop, t1)"
    by (cases "handleHash_fetch E hash aid t")
  then have d1: "Datastore t1 = Datastore t" by (rule handleHash_fetch_Datastore)
  show "grows (Datastore t) (Datastore (fst (snd y))) \<and>
        (fst y = None \<longrightarrow>
           GetAlbum aid (Datastore t) \<noteq> None \<and>
           (hash = [] \<or> GetPhoto hash (Datastore (fst (snd y))) \<noteq> None))"
  proof (cases hop)
    case (Return r)
    with body fe have y: "y = (r, t1, datac)" by simp
    show ?thesis
    proof (cases r)
      case None
      with fe Return handleHash_fetch_Return [of E hash aid t t1] y d1 show ?thesis
        by (simp add: grows_refl)
    next
      case (Some e)
      with y d1 show ?thesis by (simp add: grows_refl)
    qed
  next
    case (Indexing p a)
    with fe handleHash_fetch_Indexing [of E hash aid t p a t1]
    have p: "Cid p = hash" "GetPhoto hash (Datastore t) = None"
      "GetAlbum aid (Datastore t) = Some a"
      by simp_all
    obtain res t2 c2 where ix: "handleHash_index p a datac t1 = (res, t2, c2)"
      by (cases "handleHash_index p a datac t1")
    then have g2: "grows (Datastore t) (Datastore t2)"
      using handleHash_index_grows d1 by fastforce
    show ?thesis
    proof (cases res)
      case (Some e)
      with body fe Indexing ix have "y = (Some e, t2, c2)" by simp
      with g2 show ?thesis by simp
    next
      case None
      with body fe Indexing ix have "f E (LastCid p) aid c2 t2 = Some y" by simp
      from IH [OF this] have g: "grows (Datastore t2) (Datastore (fst (snd y)))"
        by simp
      from ix None have "GetPhoto (Cid p) (Datastore t2) \<noteq> None"
        by (simp add: handleHash_index_None)
      then have "Cid p \<in> Cid ` set (photos (Datastore t2))"
        by (simp add: GetPhoto_None_iff)
      with g have "Cid p \<in> Cid ` set (photos (Datastore (fst (snd y))))"
        by (auto simp: grows_def)
      with p have "GetPhoto hash (Datastore (fst (snd y))) \<noteq> None"
        by (simp add: GetPhoto_None_iff)
      with g2 g p show ?thesis by (auto intro: grows_trans)
    qed
  qed
qed

text \<open>
  One after the other: a walk that follows a successful walk for the same hash returns
  \<open>nil\<close> and leaves node and channel as they are, and no walk puts a content id into the
  index twice.
\<close>

lemma handleHash_twice:
  assumes "handleHash E hash aid datac t = Some (None, t', c')"
  shows "handleHash E hash aid c' t' = Some (None, t', c')"
proof -
  from handleHash_post [OF assms]
  have g: "grows (Datastore t) (Datastore t')"
    and a: "GetAlbum aid (Datastore t) \<noteq> None"
    and h: "hash = [] \<or> GetPhoto hash (Datastore t') \<noteq> None"
    by simp_all
  from g a have "GetAlbum aid (Datastore t') \<noteq> None"
    by (simp add: grows_def GetAlbum_def)
  with h show ?thesis
    by (subst handleHash.simps) (auto simp: handleHash_fetch_def)
qed

lemma handleHash_no_duplicates:
  assumes "handleHash E hash aid datac t = Some (r, t', c')"
    and "distinct (map Cid (photos (Datastore t)))"
  shows "distinct (map Cid (photos (Datastore t')))"
  using handleHash_post [OF assms(1)] assms(2) by (simp add: grows_def)


text \<open>
  At the same time: whenever both walks have read the index before either writes it, the
  first to index goes on and the other returns the error of the index.
\<close>

lemma handleHash_interleaved_loser:
  assumes "handleHash_interleaved E hash aid datac t = Some ((rA, rB), t4, c4)"
    and "\<not> closed datac"
  shows "rA = None \<and> rB = Some AlreadyIndexed"
proof -
  from assms(1) obtain pA aA t1 pB aB t2 t3 c3 where
    fA: "handleHash_fetch E hash aid t = (Indexing pA aA, t1)" and
    fB: "handleHash_fetch E hash aid t1 = (Indexing pB aB, t2)" and
    iA: "handleHash_index pA aA datac t2 = (rA, t3, c3)" and
    iB: "handleHash_index pB aB c3 t3 = (rB, t4, c4)"
    by (auto simp: handleHash_interleaved_def split: prod.splits hop.splits)
  from fA have a: "Cid pA = hash" "GetPhoto hash (Datastore t) = None"
    using handleHash_fetch_Indexing by blast+
  from fB have b: "Cid pB = hash" using handleHash_fetch_Indexing by blast
  from fA have "Datastore t1 = Datastore t" by (rule handleHash_fetch_Datastore)
  moreover from fB have "Datastore t2 = Datastore t1" by (rule handleHash_fetch_Datastore)
  ultimately have "GetPhoto (Cid pA) (Datastore t2) = None" using a by simp
  from handleHash_index_ok [OF this assms(2), of aA] iA
  have rA: "rA = None" and t3: "GetPhoto (Cid pB) (Datastore t3) \<noteq> None"
    using a b by (auto simp: GetPhoto_put)
  from t3 iB have "rB = Some AlreadyIndexed"
    by (auto simp: handleHash_index_def Photos_Put_def split: option.splits)
  with rA show ?thesis by simp
qed

text \<open>
  C1. Handling the same content id twice is to leave one record and to make the second
  or losing attempt a success without effect. That holds for one walk after the other
  (\<open>handleHash_twice\<close>, \<open>handleHash_no_duplicates\<close>). It fails for two walks at the same
  time: on the small store, with two walks for \<open>h2\<close> that both pass the check of the
  index, one record and one notification result, and the losing walk returns the error
  \<open>AlreadyIndexed\<close> instead of \<open>nil\<close>.
\<close>

theorem concurrent_walk_loser_errors:
  "map_option (\<lambda>(r, t', c'). (r, map Cid (photos (Datastore t')), map Cid_update (buffer c')))
     (handleHash_interleaved demo_env ''h2'' ''A'' demo_chan demo_node) =
   Some ((None, Some AlreadyIndexed), [''h2''], [''h2''])"
  by (simp add: handleHash_interleaved_def handleHash_fetch_def handleHash_index_def
      pinPath_def GetAlbum_def GetPhoto_def Photos_Put_def send_nb_def read_defs demo_defs)

end
